theory Spec2Isabelle
  imports Main "HOL-Library.Sublist"
begin

section \<open>JavaScript strings\<close>

text \<open>
  A JavaScript string is a sequence of UTF-16 code units, and \<open>length\<close>, \<open>slice\<close>,
  \<open>includes\<close> and \<open>trim\<close> all count and compare code units. A code unit is a natural
  number here (below 65536 in a real string; nothing below depends on the bound).
  \<open>js\<close> turns an ASCII literal of the source into such a string.
\<close>

type_synonym jsstring = "nat list"

definition js :: "string \<Rightarrow> jsstring" where
  "js s = map of_char s"

text \<open>\<open>s.slice(0, n)\<close> for a non-negative \<open>n\<close>.\<close>

definition slice0 :: "jsstring \<Rightarrow> nat \<Rightarrow> jsstring" where
  "slice0 s n = take n s"

text \<open>\<open>s.startsWith(t)\<close>, and \<open>s.includes(t)\<close>: \<open>t\<close> occurs in \<open>s\<close> as a contiguous,
  case-sensitive run of code units.\<close>

fun starts_with :: "jsstring \<Rightarrow> jsstring \<Rightarrow> bool" where
  "starts_with s [] = True"
| "starts_with [] (d # t) = False"
| "starts_with (c # s) (d # t) = (c = d \<and> starts_with s t)"

fun js_includes :: "jsstring \<Rightarrow> jsstring \<Rightarrow> bool" where
  "js_includes [] t = (t = [])"
| "js_includes (c # s) t = (starts_with (c # s) t \<or> js_includes s t)"

text \<open>
  The code units matched by \<open>\s\<close> in a regular expression and stripped by \<open>trim\<close>:
  the WhiteSpace and LineTerminator productions of ECMAScript (TAB, LF, VT, FF, CR,
  SPACE, NBSP, U+1680, U+2000..U+200A, U+2028, U+2029, U+202F, U+205F, U+3000, U+FEFF).
\<close>

definition is_space :: "nat \<Rightarrow> bool" where
  "is_space c = ((9 \<le> c \<and> c \<le> 13) \<or> c = 32 \<or> c = 160 \<or> c = 5760
      \<or> (8192 \<le> c \<and> c \<le> 8202) \<or> c = 8232 \<or> c = 8233 \<or> c = 8239
      \<or> c = 8287 \<or> c = 12288 \<or> c = 65279)"

text \<open>\<open>s.trim()\<close>.\<close>

definition trim :: "jsstring \<Rightarrow> jsstring" where
  "trim s = rev (dropWhile is_space (rev (dropWhile is_space s)))"

text \<open>\<open>s.replace(/\s+/g, ' ')\<close>: every maximal run of white space becomes one SPACE.\<close>

function collapse_ws :: "jsstring \<Rightarrow> jsstring" where
  "collapse_ws [] = []"
| "collapse_ws (c # s) =
     (if is_space c then 32 # collapse_ws (dropWhile is_space s) else c # collapse_ws s)"
  by pat_completeness auto
termination
  by (relation "measure length") (auto simp: length_dropWhile_le less_Suc_eq_le)

text \<open>Decimal digits of a natural number, as \<open>String(n)\<close> prints a timestamp.\<close>

fun dec :: "nat \<Rightarrow> jsstring" where
  "dec n = (if n < 10 then [48 + n] else dec (n div 10) @ [48 + n mod 10])"

declare dec.simps [simp del]

section \<open>JavaScript values\<close>

text \<open>
  The values that reach the client: what \<open>JSON.parse\<close> builds, and \<open>undefined\<close>.
  An object is the list of its own properties in property order. Numbers are integers
  or \<open>NaN\<close>; the client only ever asks whether a number is truthy and what its
  \<open>typeof\<close> is.
\<close>

datatype jsval =
    JUndefined
  | JNull
  | JBool bool
  | JNum int
  | JNaN
  | JStr jsstring
  | JArr "jsval list"
  | JObj "(jsstring \<times> jsval) list"

datatype jstype = TUndefined | TObject | TBoolean | TNumber | TString

fun js_typeof :: "jsval \<Rightarrow> jstype" where
  "js_typeof JUndefined = TUndefined"
| "js_typeof JNull = TObject"
| "js_typeof (JBool b) = TBoolean"
| "js_typeof (JNum n) = TNumber"
| "js_typeof JNaN = TNumber"
| "js_typeof (JStr s) = TString"
| "js_typeof (JArr xs) = TObject"
| "js_typeof (JObj ps) = TObject"

text \<open>ToBoolean: what \<open>!v\<close> and \<open>if (v)\<close> test.\<close>

fun js_truthy :: "jsval \<Rightarrow> bool" where
  "js_truthy JUndefined = False"
| "js_truthy JNull = False"
| "js_truthy (JBool b) = b"
| "js_truthy (JNum n) = (n \<noteq> 0)"
| "js_truthy JNaN = False"
| "js_truthy (JStr s) = (s \<noteq> [])"
| "js_truthy (JArr xs) = True"
| "js_truthy (JObj ps) = True"

fun is_array :: "jsval \<Rightarrow> bool" where
  "is_array (JArr xs) = True"
| "is_array v = False"

text \<open>What \<open>for (const x of v)\<close> visits when \<open>v\<close> is an array.\<close>

fun elements :: "jsval \<Rightarrow> jsval list" where
  "elements (JArr xs) = xs"
| "elements v = []"

text \<open>The string that a value of type string is.\<close>

fun str_of :: "jsval \<Rightarrow> jsstring" where
  "str_of (JStr s) = s"
| "str_of v = []"

text \<open>
  \<open>v.k\<close> for a name \<open>k\<close> that no prototype defines, such as the names the client
  reads, \<open>url\<close> and \<open>results\<close>, and the name it writes, \<open>parsed_content\<close>: an own
  property of an object, and \<open>undefined\<close> on an array or a string (whose own
  properties are indices and \<open>length\<close>). The client never reads a property of
  \<open>null\<close> or \<open>undefined\<close>: a truthiness test guards every read.
\<close>

fun get_member :: "jsval \<Rightarrow> jsstring \<Rightarrow> jsval" where
  "get_member (JObj ps) k = (case map_of ps k of Some v \<Rightarrow> v | None \<Rightarrow> JUndefined)"
| "get_member v k = JUndefined"

text \<open>The own enumerable properties that an object spread \<open>{...v}\<close> copies, in order.\<close>

fun own_enumerable :: "jsval \<Rightarrow> (jsstring \<times> jsval) list" where
  "own_enumerable (JObj ps) = ps"
| "own_enumerable (JArr xs) = zip (map dec [0..<length xs]) xs"
| "own_enumerable (JStr s) = zip (map dec [0..<length s]) (map (\<lambda>c. JStr [c]) s)"
| "own_enumerable v = []"

text \<open>
  Defining property \<open>k\<close> in an object literal after a spread: an existing property keeps
  its place and takes the new value, a new one is added last.
\<close>

fun set_prop :: "(jsstring \<times> jsval) list \<Rightarrow> jsstring \<Rightarrow> jsval \<Rightarrow> (jsstring \<times> jsval) list" where
  "set_prop [] k v = [(k, v)]"
| "set_prop ((k', v') # ps) k v =
     (if k' = k then (k, v) # ps else (k', v') # set_prop ps k v)"

text \<open>\<open>{ ...result, k: v }\<close>: a new object; \<open>result\<close> itself is only read.\<close>

definition spread_with :: "jsval \<Rightarrow> jsstring \<Rightarrow> jsval \<Rightarrow> jsval" where
  "spread_with result k v = JObj (set_prop (own_enumerable result) k v)"

datatype js_error = TypeError jsstring | Error jsstring

text \<open>
  ToString of a value interpolated into a template literal, reduced to whether it
  completes: \<open>None\<close> when it yields a string, the thrown error otherwise.
  For an object ToString is OrdinaryToPrimitive with hint string: it calls \<open>toString\<close>
  and then \<open>valueOf\<close> when they are callable and takes the first primitive result.
  A parsed-JSON object inherits \<open>Object.prototype.toString\<close>, which answers
  \<open>[object Object]\<close>, unless it has an own property named \<open>toString\<close>; that own
  property is data, not callable, and \<open>valueOf\<close> (inherited, or own and not callable)
  yields no primitive, so the conversion throws a TypeError. An array joins the
  conversions of its elements, taking \<open>null\<close> and \<open>undefined\<close> as empty.
\<close>

fun first_error :: "js_error option list \<Rightarrow> js_error option" where
  "first_error [] = None"
| "first_error (None # es) = first_error es"
| "first_error (Some e # es) = Some e"

fun to_string_error :: "jsval \<Rightarrow> js_error option" where
  "to_string_error (JObj ps) =
     (if js ''toString'' \<in> set (map fst ps)
      then Some (TypeError (js ''Cannot convert object to primitive value''))
      else None)"
| "to_string_error (JArr xs) = first_error (map to_string_error xs)"
| "to_string_error v = None"

section \<open>The world outside the client\<close>

text \<open>
  The network, the file system, the \<open>pdf2txt.py\<close> subprocess, the clock and the parsing
  libraries are not code of the client. The environment answers each call; an answer
  that may change from call to call is indexed by \<open>tick\<close>, the number of calls made so
  far, so that two fetches of one URL may end differently. The world records what the
  client did: the calls in order, and the temporary files that exist.
\<close>

type_synonym bytes = "nat list"

record 'd response =
  status :: nat
  content_type :: "jsstring option"
  data :: 'd

datatype 'd http_outcome =
    Reply "'d response"
  | NetworkError jsstring
  | OtherFailure jsstring

datatype 'd thrown = AxiosError jsstring "'d response option" | NonAxiosError jsstring

datatype exec_outcome =
    ExecDone jsstring jsstring
  | ExecFailed jsstring
  | ExecTimedOut

datatype event =
    HttpGet jsstring
  | SearchGet jsstring jsstring
  | WriteFile jsstring
  | Exec jsstring
  | Unlink jsstring
  | ReadabilityParse jsstring
  | CheerioLoad

record world =
  tick :: nat
  files :: "jsstring set"
  trace :: "event list"

definition emit :: "event \<Rightarrow> world \<Rightarrow> world" where
  "emit e w = w\<lparr>tick := tick w + 1, trace := trace w @ [e]\<rparr>"

text \<open>
  \<open>url_parses u\<close>: \<open>new URL(u)\<close> does not throw.
  \<open>http_get n u\<close>: how the GET of \<open>u\<close> ends (a reply of any status, or a network error,
  which includes the 10 s timeout and an oversized body); the body of a reply is a
  Buffer, or absent.
  \<open>search_get n q l\<close>: the same for the search endpoint, whose body is parsed JSON.
  \<open>write_file\<close>: \<open>None\<close> when \<open>fs.promises.writeFile\<close> succeeds, else its error.
  \<open>unlink_file\<close>: \<open>None\<close> when \<open>fs.promises.unlink\<close> succeeds, else its error.
  \<open>pdf2txt n cmd\<close>: how the race between the subprocess and the 30 s timer ends.
  \<open>buffer_to_string\<close>: \<open>Buffer.toString()\<close>, UTF-8 decoding.
  \<open>readability html url\<close>: JSDOM and Readability; \<open>Inr t\<close> is \<open>article?.textContent\<close>,
  with \<open>None\<close> for a null article or an absent text; \<open>Inl\<close> is an exception.
  \<open>cheerio_body_text html\<close>: the text of \<open>body\<close> once script, style, nav, footer and
  header elements are removed; \<open>Inl\<close> is an exception.
\<close>

record env =
  url_parses :: "jsstring \<Rightarrow> bool"
  http_get :: "nat \<Rightarrow> jsstring \<Rightarrow> bytes option http_outcome"
  search_get :: "nat \<Rightarrow> jsstring \<Rightarrow> jsstring \<Rightarrow> jsval http_outcome"
  date_now :: "nat \<Rightarrow> nat"
  write_file :: "nat \<Rightarrow> jsstring \<Rightarrow> bytes \<Rightarrow> js_error option"
  unlink_file :: "nat \<Rightarrow> jsstring \<Rightarrow> js_error option"
  pdf2txt :: "nat \<Rightarrow> jsstring \<Rightarrow> exec_outcome"
  buffer_to_string :: "bytes \<Rightarrow> jsstring"
  readability :: "jsstring \<Rightarrow> jsstring \<Rightarrow> js_error + jsstring option"
  cheerio_body_text :: "jsstring \<Rightarrow> js_error + jsstring"

text \<open>
  \<open>axios.get\<close> with the default \<open>validateStatus\<close>: the promise is fulfilled by a reply
  whose status is 2xx and rejected by any other reply and by every failure.
\<close>

definition axios_get :: "'d http_outcome \<Rightarrow> 'd thrown + 'd response" where
  "axios_get out =
     (case out of
        Reply r \<Rightarrow>
          if 200 \<le> status r \<and> status r < 300 then Inr r
          else Inl (AxiosError (js ''Request failed with status code '' @ dec (status r)) (Some r))
      | NetworkError m \<Rightarrow> Inl (AxiosError m None)
      | OtherFailure m \<Rightarrow> Inl (NonAxiosError m))"

section \<open>The client\<close>

text \<open>
  The private fields of class \<open>SearXNGClient\<close> that are numbers. Calls to the logger
  are left out of the model, except that a template literal evaluates what it
  interpolates, which can throw.
\<close>

record client =
  num_results :: nat
  timeout :: nat
  parsingTimeout :: nat
  max_content_length :: nat
  max_workers :: nat
  pdfExtractionTimeout :: nat

definition SearXNGClient :: client where
  "SearXNGClient = \<lparr>num_results = 10, timeout = 10, parsingTimeout = 15,
     max_content_length = 50000, max_workers = 5, pdfExtractionTimeout = 30\<rparr>"

record parsed =
  p_url :: jsstring
  p_content :: jsstring

text \<open>\<open>search\<close>: the reply's data, or \<open>{ results: [] }\<close> from the catch block.\<close>

definition search :: "env \<Rightarrow> jsstring \<Rightarrow> jsstring \<Rightarrow> world \<Rightarrow> jsval \<times> world" where
  "search env query language w =
     (let w' = emit (SearchGet query language) w in
      case axios_get (search_get env (tick w) query language) of
        Inr response \<Rightarrow> (data response, w')
      | Inl error \<Rightarrow> (JObj [(js ''results'', JArr [])], w'))"

text \<open>\<open>_fetch_url_content\<close>: one \<open>axios.get\<close>; the catch block turns every rejection
  into \<open>null\<close>.\<close>

definition fetch_url_content ::
  "env \<Rightarrow> jsstring \<Rightarrow> world \<Rightarrow> bytes option response option \<times> world" where
  "fetch_url_content env url w =
     (let w' = emit (HttpGet url) w in
      case axios_get (http_get env (tick w) url) of
        Inr response \<Rightarrow> (Some response, w')
      | Inl error \<Rightarrow> (None, w'))"

definition temp_file_path :: "nat \<Rightarrow> jsstring" where
  "temp_file_path t = js ''/tmp/temp_'' @ dec t @ js ''.pdf''"

text \<open>
  \<open>_extract_text_from_pdf\<close>. The file exists once \<open>writeFile\<close> has succeeded; the
  subprocess only reads it. \<open>unlink\<close> is the last statement of the try block, after the
  race: a rejected race (the subprocess failed, or the timer won) goes to the catch
  block, which returns \<open>null\<close>. When \<open>unlink\<close> itself fails, the catch block
  returns \<open>null\<close> as well and the file stays.
\<close>

definition extract_text_from_pdf ::
  "env \<Rightarrow> jsstring \<Rightarrow> bytes \<Rightarrow> world \<Rightarrow> jsstring option \<times> world" where
  "extract_text_from_pdf env url buffer w =
     (let tempFilePath = temp_file_path (date_now env (tick w));
          w1 = emit (WriteFile tempFilePath) w
      in case write_file env (tick w) tempFilePath buffer of
        Some error \<Rightarrow> (None, w1)
      | None \<Rightarrow>
          (let w2 = w1\<lparr>files := insert tempFilePath (files w1)\<rparr>;
               command = js ''pdf2txt.py '' @ [34] @ tempFilePath @ [34];
               w3 = emit (Exec command) w2
           in case pdf2txt env (tick w2) command of
             ExecFailed m \<Rightarrow> (None, w3)
           | ExecTimedOut \<Rightarrow> (None, w3)
           | ExecDone stdout stderr \<Rightarrow>
               (let w4 = emit (Unlink tempFilePath) w3
                in case unlink_file env (tick w3) tempFilePath of
                  Some error \<Rightarrow> (None, w4)
                | None \<Rightarrow>
                    (Some (trim stdout), w4\<lparr>files := files w3 - {tempFilePath}\<rparr>))))"

text \<open>A promise settles once: \<open>resolve\<close> and \<open>reject\<close> on a settled promise do nothing.\<close>

datatype 'a settled = Resolved 'a | Rejected js_error

definition resolve :: "'a \<Rightarrow> 'a settled option \<Rightarrow> 'a settled option" where
  "resolve v p = (case p of None \<Rightarrow> Some (Resolved v) | Some s \<Rightarrow> Some s)"

definition reject :: "js_error \<Rightarrow> 'a settled option \<Rightarrow> 'a settled option" where
  "reject e p = (case p of None \<Rightarrow> Some (Rejected e) | Some s \<Rightarrow> Some s)"

text \<open>
  Lines 171 to 182 of the executor: \<open>resolve(null)\<close> on an empty \<open>content\<close> does not
  return, so \<open>resolve\<close> is called a second time, on a promise that is settled.
\<close>

definition settle_content ::
  "client \<Rightarrow> jsstring \<Rightarrow> jsstring \<Rightarrow> parsed option settled option" where
  "settle_content c url content =
     (let p = (if content = [] then resolve None None else None)
      in resolve (Some \<lparr>p_url = url, p_content = slice0 content (max_content_length c)\<rparr>) p)"

text \<open>
  The executor of \<open>parsingPromise\<close>, which runs to its end inside \<open>new Promise\<close>:
  Readability first, Cheerio when \<open>!content\<close>. An exception of either is caught and
  rejects the promise.
\<close>

definition parsing_promise ::
  "client \<Rightarrow> env \<Rightarrow> jsstring \<Rightarrow> jsstring \<Rightarrow> world \<Rightarrow> parsed option settled option \<times> world" where
  "parsing_promise c env html url w =
     (let w1 = emit (ReadabilityParse url) w in
      case readability env html url of
        Inl error \<Rightarrow> (reject error None, w1)
      | Inr textContent \<Rightarrow>
          (case (case textContent of None \<Rightarrow> None | Some t \<Rightarrow> if t = [] then None else Some t) of
             Some content \<Rightarrow> (settle_content c url content, w1)
           | None \<Rightarrow>
               (let w2 = emit CheerioLoad w1 in
                case cheerio_body_text env html of
                  Inl error \<Rightarrow> (reject error None, w2)
                | Inr text \<Rightarrow> (settle_content c url (trim (collapse_ws text)), w2))))"

text \<open>
  \<open>_parse_content\<close>. \<open>contentType\<close> is the header, or the empty string when the
  header is absent or empty; the test on it is \<open>String.prototype.includes\<close>.
  In the PDF branch (lines 124 to 139) everything is inside a try block, also
  \<open>Buffer.from\<close>, which throws on an absent body. In the other branch (lines 141 to
  203) \<open>response.data.toString()\<close> stands before the try block, and the awaited race
  is inside it: \<open>parsingPromise\<close> is settled before the timer is even created, so the
  race takes its outcome, and a rejection is caught and becomes \<open>null\<close>.
\<close>

definition declared_content_type :: "'d response \<Rightarrow> jsstring" where
  "declared_content_type response =
     (case content_type response of None \<Rightarrow> [] | Some h \<Rightarrow> h)"

definition pdf_branch ::
  "client \<Rightarrow> env \<Rightarrow> bytes option response \<Rightarrow> jsstring \<Rightarrow> world
     \<Rightarrow> (js_error + parsed option) \<times> world" where
  "pdf_branch c env response url w =
     (case data response of
        None \<Rightarrow> (Inr None, w)
      | Some buffer \<Rightarrow>
          (case extract_text_from_pdf env url buffer w of
             (None, w') \<Rightarrow> (Inr None, w')
           | (Some pdfText, w') \<Rightarrow>
               if pdfText \<noteq> []
               then (Inr (Some \<lparr>p_url = url,
                       p_content = slice0 pdfText (max_content_length c)\<rparr>), w')
               else (Inr None, w')))"

definition markup_branch ::
  "client \<Rightarrow> env \<Rightarrow> bytes option response \<Rightarrow> jsstring \<Rightarrow> world
     \<Rightarrow> (js_error + parsed option) \<times> world" where
  "markup_branch c env response url w =
     (case data response of
        None \<Rightarrow>
          (Inl (TypeError (js ''Cannot read properties of undefined (reading toString)'')), w)
      | Some buffer \<Rightarrow>
          (let html = buffer_to_string env buffer in
           if html = [] then (Inr None, w)
           else
             (case parsing_promise c env html url w of
                (Some (Resolved r), w') \<Rightarrow> (Inr r, w')
              | (Some (Rejected error), w') \<Rightarrow> (Inr None, w')
              | (None, w') \<Rightarrow> (Inr None, w'))))"

definition parse_content ::
  "client \<Rightarrow> env \<Rightarrow> bytes option response \<Rightarrow> jsstring \<Rightarrow> world
     \<Rightarrow> (js_error + parsed option) \<times> world" where
  "parse_content c env response url w =
     (let contentType = declared_content_type response in
      if js_includes contentType (js ''application/pdf'')
      then pdf_branch c env response url w
      else markup_branch c env response url w)"

definition is_valid_url :: "env \<Rightarrow> jsstring \<Rightarrow> bool" where
  "is_valid_url env url = url_parses env url"

text \<open>
  The body of the loop of \<open>fetch_and_parse_results\<close>, on one \<open>result\<close>, with
  \<open>parsedResults\<close> as it stands. The warning for a missing or invalid URL
  interpolates \<open>url\<close>, whatever it is, before \<open>continue\<close> and outside the try block.
\<close>

definition process_result ::
  "client \<Rightarrow> env \<Rightarrow> jsval \<Rightarrow> jsval list \<Rightarrow> world \<Rightarrow> (js_error + jsval list) \<times> world" where
  "process_result c env result parsedResults w =
     (if \<not> js_truthy result \<or> js_typeof result \<noteq> TObject then (Inr parsedResults, w)
      else
        (let url = get_member result (js ''url'') in
         if js_typeof url \<noteq> TString \<or> \<not> is_valid_url env (str_of url) then
           (case to_string_error url of
              Some error \<Rightarrow> (Inl error, w)
            | None \<Rightarrow> (Inr parsedResults, w))
         else
           (case fetch_url_content env (str_of url) w of
              (None, w1) \<Rightarrow> (Inr parsedResults, w1)
            | (Some response, w1) \<Rightarrow>
                (case parse_content c env response (str_of url) w1 of
                   (Inl error, w2) \<Rightarrow> (Inr parsedResults, w2)
                 | (Inr None, w2) \<Rightarrow> (Inr parsedResults, w2)
                 | (Inr (Some parsedContent), w2) \<Rightarrow>
                     if p_content parsedContent \<noteq> []
                     then (Inr (parsedResults @
                             [spread_with result (js ''parsed_content'')
                                (JStr (p_content parsedContent))]), w2)
                     else (Inr parsedResults, w2)))))"

fun for_of ::
  "client \<Rightarrow> env \<Rightarrow> jsval list \<Rightarrow> jsval list \<Rightarrow> world \<Rightarrow> (js_error + jsval list) \<times> world" where
  "for_of c env [] parsedResults w = (Inr parsedResults, w)"
| "for_of c env (result # rest) parsedResults w =
     (case process_result c env result parsedResults w of
        (Inl error, w') \<Rightarrow> (Inl error, w')
      | (Inr parsedResults', w') \<Rightarrow> for_of c env rest parsedResults' w')"

definition fetch_and_parse_results ::
  "client \<Rightarrow> env \<Rightarrow> jsval \<Rightarrow> world \<Rightarrow> (js_error + jsval list) \<times> world" where
  "fetch_and_parse_results c env results w =
     (if \<not> js_truthy results \<or> \<not> is_array results then (Inr [], w)
      else for_of c env (elements results) [] w)"

definition search_and_parse ::
  "client \<Rightarrow> env \<Rightarrow> jsstring \<Rightarrow> jsstring \<Rightarrow> world \<Rightarrow> (js_error + jsval list) \<times> world" where
  "search_and_parse c env query language w =
     (case search env query language w of (searchResults, w1) \<Rightarrow>
        if \<not> js_truthy searchResults \<or> js_typeof searchResults \<noteq> TObject then (Inr [], w1)
        else
          (let results = get_member searchResults (js ''results'') in
           if \<not> js_truthy results \<or> \<not> is_array results then (Inr [], w1)
           else
             (case fetch_and_parse_results c env results w1 of
                (Inl error, w2) \<Rightarrow> (Inr [], w2)
              | (Inr parsedResults, w2) \<Rightarrow> (Inr parsedResults, w2))))"

section \<open>Objects by reference\<close>

text \<open>
  An object has an identity: the array that \<open>fetch_and_parse_results\<close> receives
  holds references to the caller's objects, and a write to a property of one of them
  would be seen by the caller. To state what the loop does to them, the same loop is
  written once more over a store. The store is the list of the objects that exist, an
  object's address is its index, and an element of an array is a reference into the
  store or a value that is no object. The property values inside an object stay
  values. The loop reads \<open>result\<close> through its reference; the object literal
  \<open>{ ...result, parsed_content: ... }\<close> of line 232 creates an object, which takes
  the next free address, and \<open>push\<close> appends the reference to it. No statement of
  the loop assigns to a property of \<open>result\<close>, so no store cell is written.
\<close>

datatype element = Ref nat | Prim jsval

type_synonym store = "jsval list"

text \<open>Reading through a reference; a reference to nothing reads as \<open>undefined\<close>.\<close>

fun deref :: "store \<Rightarrow> element \<Rightarrow> jsval" where
  "deref h (Ref a) = (if a < length h then h ! a else JUndefined)"
| "deref h (Prim v) = v"

definition alloc :: "jsval \<Rightarrow> store \<Rightarrow> nat \<times> store" where
  "alloc v h = (length h, h @ [v])"

text \<open>An array of the caller's: every reference points into the store, and every
  object is held by reference.\<close>

fun element_ok :: "store \<Rightarrow> element \<Rightarrow> bool" where
  "element_ok h (Ref a) = (a < length h)"
| "element_ok h (Prim v) = (js_typeof v \<noteq> TObject \<or> v = JNull)"

definition elements_ok :: "store \<Rightarrow> element list \<Rightarrow> bool" where
  "elements_ok h items = list_all (element_ok h) items"

definition process_result_ref ::
  "client \<Rightarrow> env \<Rightarrow> element \<Rightarrow> element list \<Rightarrow> store \<Rightarrow> world
     \<Rightarrow> (js_error + element list) \<times> store \<times> world" where
  "process_result_ref c env x parsedResults h w =
     (let result = deref h x in
      if \<not> js_truthy result \<or> js_typeof result \<noteq> TObject then (Inr parsedResults, h, w)
      else
        (let url = get_member result (js ''url'') in
         if js_typeof url \<noteq> TString \<or> \<not> is_valid_url env (str_of url) then
           (case to_string_error url of
              Some error \<Rightarrow> (Inl error, h, w)
            | None \<Rightarrow> (Inr parsedResults, h, w))
         else
           (case fetch_url_content env (str_of url) w of
              (None, w1) \<Rightarrow> (Inr parsedResults, h, w1)
            | (Some response, w1) \<Rightarrow>
                (case parse_content c env response (str_of url) w1 of
                   (Inl error, w2) \<Rightarrow> (Inr parsedResults, h, w2)
                 | (Inr None, w2) \<Rightarrow> (Inr parsedResults, h, w2)
                 | (Inr (Some parsedContent), w2) \<Rightarrow>
                     if p_content parsedContent \<noteq> []
                     then
                       (case alloc (spread_with result (js ''parsed_content'')
                                      (JStr (p_content parsedContent))) h of
                          (a, h') \<Rightarrow> (Inr (parsedResults @ [Ref a]), h', w2))
                     else (Inr parsedResults, h, w2)))))"

fun for_of_ref ::
  "client \<Rightarrow> env \<Rightarrow> element list \<Rightarrow> element list \<Rightarrow> store \<Rightarrow> world
     \<Rightarrow> (js_error + element list) \<times> store \<times> world" where
  "for_of_ref c env [] parsedResults h w = (Inr parsedResults, h, w)"
| "for_of_ref c env (x # rest) parsedResults h w =
     (case process_result_ref c env x parsedResults h w of
        (Inl error, h', w') \<Rightarrow> (Inl error, h', w')
      | (Inr parsedResults', h', w') \<Rightarrow> for_of_ref c env rest parsedResults' h' w')"

text \<open>\<open>fetch_and_parse_results\<close> on an array: \<open>parsedResults\<close> starts empty.\<close>

definition fetch_and_parse_results_ref ::
  "client \<Rightarrow> env \<Rightarrow> element list \<Rightarrow> store \<Rightarrow> world
     \<Rightarrow> (js_error + element list) \<times> store \<times> world" where
  "fetch_and_parse_results_ref c env items h w = for_of_ref c env items [] h w"

section \<open>The dispatch rule as the specification words it\<close>

text \<open>
  The specification asks for a match of the binary-document media type that ignores
  letter case and parameters: the header, with ASCII letters in lower case, contains
  \<open>application/pdf\<close>.
\<close>

definition ascii_lower :: "nat \<Rightarrow> nat" where
  "ascii_lower c = (if 65 \<le> c \<and> c \<le> 90 then c + 32 else c)"

definition spec_is_binary_document :: "jsstring \<Rightarrow> bool" where
  "spec_is_binary_document contentType =
     js_includes (map ascii_lower contentType) (js ''application/pdf'')"

section \<open>A concrete world\<close>

text \<open>
  The scenarios of the specification as an environment: \<open>https://a.test\<close> serves the
  HTML page of scenario 1, \<open>https://b.test/doc.pdf\<close> a PDF whose text is
  \<open>Document text\<close>, \<open>https://c.test\<close> a page with the header
  \<open>Application/PDF; charset=x\<close> and no article, \<open>https://d.test\<close> answers 404, every
  other host fails. A body is written as the code units of its text.
\<close>

definition hello_html :: jsstring where
  "hello_html = js ''<html><body><article>Hello world</article></body></html>''"

definition scenario_http :: "nat \<Rightarrow> jsstring \<Rightarrow> bytes option http_outcome" where
  "scenario_http n url =
     (if url = js ''https://a.test'' then
        Reply \<lparr>status = 200, content_type = Some (js ''text/html''), data = Some hello_html\<rparr>
      else if url = js ''https://b.test/doc.pdf'' then
        Reply \<lparr>status = 200, content_type = Some (js ''application/pdf; charset=binary''),
               data = Some (js ''%PDF-1.4'')\<rparr>
      else if url = js ''https://c.test'' then
        Reply \<lparr>status = 200, content_type = Some (js ''Application/PDF; charset=x''),
               data = Some (js ''<html><body> plain  text </body></html>'')\<rparr>
      else if url = js ''https://d.test'' then
        Reply \<lparr>status = 404, content_type = Some (js ''text/html''), data = Some []\<rparr>
      else NetworkError (js ''timeout of 10000ms exceeded''))"

definition scenario_env :: env where
  "scenario_env =
     \<lparr>url_parses = (\<lambda>url. starts_with url (js ''https://'')),
      http_get = scenario_http,
      search_get = (\<lambda>n query language.
         Reply \<lparr>status = 200, content_type = Some (js ''application/json''),
                data = JObj [(js ''results'', JArr [JObj [(js ''url'', JStr (js ''https://a.test''))]])]\<rparr>),
      date_now = (\<lambda>n. 1700000000000 + n),
      write_file = (\<lambda>n path buffer. None),
      unlink_file = (\<lambda>n path. None),
      pdf2txt = (\<lambda>n command. ExecDone (js ''Document text'' @ [10]) []),
      buffer_to_string = (\<lambda>buffer. buffer),
      readability = (\<lambda>html url.
         if html = hello_html then Inr (Some (js ''Hello world'')) else Inr None),
      cheerio_body_text = (\<lambda>html.
         if html = js ''<html><body> plain  text </body></html>''
         then Inr (js '' plain  text '') else Inr [])\<rparr>"

text \<open>The same world with a converter that never finishes within its 30 seconds.\<close>

definition slow_pdf_env :: env where
  "slow_pdf_env = scenario_env\<lparr>pdf2txt := (\<lambda>n command. ExecTimedOut)\<rparr>"

definition w0 :: world where
  "w0 = \<lparr>tick = 0, files = {}, trace = []\<rparr>"

definition item_a :: jsval where
  "item_a = JObj [(js ''url'', JStr (js ''https://a.test'')), (js ''title'', JStr (js ''A''))]"

text \<open>An item that arrives with a \<open>parsed_content\<close> field of its own.\<close>

definition stale_item :: jsval where
  "stale_item = JObj [(js ''parsed_content'', JStr (js ''old'')),
     (js ''url'', JStr (js ''https://a.test''))]"

text \<open>An item whose \<open>url\<close> is the JSON object \<open>{"toString": 1}\<close>.\<close>

definition unprintable_item :: jsval where
  "unprintable_item = JObj [(js ''url'', JObj [(js ''toString'', JNum 1)])]"

text \<open>A batch with a PDF, a 404, a string that is no URL, a number and a page.\<close>

definition mixed_items :: "jsval list" where
  "mixed_items =
     [JObj [(js ''url'', JStr (js ''https://b.test/doc.pdf''))],
      JObj [(js ''url'', JStr (js ''https://d.test''))],
      JObj [(js ''url'', JStr (js ''not a url''))],
      JNum 7,
      JObj [(js ''url'', JStr (js ''https://c.test''))]]"

text \<open>The reply of \<open>https://c.test\<close>, and a reply whose page has no text at all.\<close>

definition uppercase_pdf_response :: "bytes option response" where
  "uppercase_pdf_response =
     \<lparr>status = 200, content_type = Some (js ''Application/PDF; charset=x''),
      data = Some (js ''<html><body> plain  text </body></html>'')\<rparr>"

definition empty_page_response :: "bytes option response" where
  "empty_page_response =
     \<lparr>status = 200, content_type = Some (js ''text/html''),
      data = Some (js ''<html></html>'')\<rparr>"

text \<open>A store with the two items, and an array over it with a number between them.\<close>

definition h0 :: store where
  "h0 = [item_a, stale_item]"

definition items0 :: "element list" where
  "items0 = [Ref 0, Prim (JNum 7), Ref 1]"

section \<open>Strings and objects\<close>

lemma js_inject: "js a = js b \<longleftrightarrow> a = b"
  by (simp add: js_def inj_map_eq_map inj_of_char)

lemma slice0_length: "length (slice0 s n) \<le> n"
  by (simp add: slice0_def)

lemma starts_with_iff: "starts_with s t \<longleftrightarrow> (\<exists>post. s = t @ post)"
  by (induction s t rule: starts_with.induct) auto

lemma js_includes_iff: "js_includes s t \<longleftrightarrow> (\<exists>pre post. s = pre @ t @ post)"
proof (induction s)
  case Nil
  show ?case by auto
next
  case (Cons c s)
  show ?case
  proof
    assume "js_includes (c # s) t"
    then consider "starts_with (c # s) t" | "js_includes s t" by auto
    then show "\<exists>pre post. c # s = pre @ t @ post"
    proof cases
      case 1
      then obtain post where "c # s = t @ post" by (auto simp: starts_with_iff)
      then have "c # s = [] @ t @ post" by simp
      then show ?thesis by blast
    next
      case 2
      with Cons.IH obtain pre post where "s = pre @ t @ post" by auto
      then have "c # s = (c # pre) @ t @ post" by simp
      then show ?thesis by blast
    qed
  next
    assume "\<exists>pre post. c # s = pre @ t @ post"
    then obtain pre post where eq: "c # s = pre @ t @ post" by blast
    show "js_includes (c # s) t"
    proof (cases pre)
      case Nil
      with eq have "starts_with (c # s) t" by (auto simp: starts_with_iff)
      then show ?thesis by simp
    next
      case (Cons d pre')
      with eq have "s = pre' @ t @ post" by simp
      with Cons.IH have "js_includes s t" by blast
      then show ?thesis by simp
    qed
  qed
qed

lemma map_of_set_prop: "map_of (set_prop ps k v) = (map_of ps)(k \<mapsto> v)"
  by (induction ps k v rule: set_prop.induct) auto

lemma keys_set_prop: "set (map fst (set_prop ps k v)) = insert k (set (map fst ps))"
  by (induction ps k v rule: set_prop.induct) auto

lemma set_prop_new: "k \<notin> set (map fst ps) \<Longrightarrow> set_prop ps k v = ps @ [(k, v)]"
  by (induction ps k v rule: set_prop.induct) auto

lemma set_prop_old: "k \<in> set (map fst ps) \<Longrightarrow> map fst (set_prop ps k v) = map fst ps"
  by (induction ps k v rule: set_prop.induct) auto

lemma get_member_spread_same: "get_member (spread_with r k v) k = v"
  by (simp add: spread_with_def map_of_set_prop)

lemma get_member_spread_other:
  "k' \<noteq> k \<Longrightarrow> get_member (spread_with (JObj ps) k v) k' = get_member (JObj ps) k'"
  by (simp add: spread_with_def map_of_set_prop)

section \<open>The extractors\<close>

lemma settle_content_resolved:
  "settle_content c url content = Some (Resolved (Some pc)) \<Longrightarrow>
     p_url pc = url \<and> p_content pc = slice0 content (max_content_length c) \<and> content \<noteq> []"
  by (auto simp: settle_content_def resolve_def split: if_splits)

lemma settle_content_empty: "settle_content c url [] = Some (Resolved None)"
  by (simp add: settle_content_def resolve_def)

lemma parsing_promise_resolved:
  "parsing_promise c env html url w = (Some (Resolved (Some pc)), w') \<Longrightarrow>
     p_url pc = url \<and> length (p_content pc) \<le> max_content_length c"
  by (auto simp: parsing_promise_def Let_def reject_def slice0_length
      split: sum.splits option.splits if_splits dest!: settle_content_resolved)

lemma parse_content_bound:
  "parse_content c env response url w = (Inr (Some pc), w') \<Longrightarrow>
     p_url pc = url \<and> length (p_content pc) \<le> max_content_length c"
  by (auto simp: parse_content_def pdf_branch_def markup_branch_def Let_def slice0_length
      split: option.splits if_splits prod.splits settled.splits dest: parsing_promise_resolved)

lemma extract_text_from_pdf_success:
  assumes "write_file env (tick w) (temp_file_path (date_now env (tick w))) buffer = None"
    and "pdf2txt env (Suc (tick w))
           (js ''pdf2txt.py '' @ [34] @ temp_file_path (date_now env (tick w)) @ [34])
         = ExecDone stdout stderr"
    and "unlink_file env (Suc (Suc (tick w))) (temp_file_path (date_now env (tick w))) = None"
    and "extract_text_from_pdf env url buffer w = (r, w')"
  shows "r = Some (trim stdout) \<and> temp_file_path (date_now env (tick w)) \<notin> files w'"
  using assms by (auto simp: extract_text_from_pdf_def Let_def emit_def)

lemma extract_text_from_pdf_failure:
  assumes "write_file env (tick w) (temp_file_path (date_now env (tick w))) buffer = None"
    and "pdf2txt env (Suc (tick w))
           (js ''pdf2txt.py '' @ [34] @ temp_file_path (date_now env (tick w)) @ [34])
         = ExecTimedOut \<or>
         pdf2txt env (Suc (tick w))
           (js ''pdf2txt.py '' @ [34] @ temp_file_path (date_now env (tick w)) @ [34])
         = ExecFailed m"
    and "extract_text_from_pdf env url buffer w = (r, w')"
  shows "r = None \<and> temp_file_path (date_now env (tick w)) \<in> files w'"
  using assms by (auto simp: extract_text_from_pdf_def Let_def emit_def)

lemma extract_text_from_pdf_unlink_fails:
  assumes "write_file env (tick w) (temp_file_path (date_now env (tick w))) buffer = None"
    and "pdf2txt env (Suc (tick w))
           (js ''pdf2txt.py '' @ [34] @ temp_file_path (date_now env (tick w)) @ [34])
         = ExecDone stdout stderr"
    and "unlink_file env (Suc (Suc (tick w))) (temp_file_path (date_now env (tick w)))
         = Some e"
    and "extract_text_from_pdf env url buffer w = (r, w')"
  shows "r = None \<and> temp_file_path (date_now env (tick w)) \<in> files w'"
  using assms by (auto simp: extract_text_from_pdf_def Let_def emit_def)

section \<open>The loop\<close>

lemma process_result_cases:
  assumes "process_result c env result acc w = (Inr acc', w')"
  shows "acc' = acc \<or>
    (\<exists>ps response w1 pc. result = JObj ps
        \<and> fetch_url_content env (str_of (get_member result (js ''url''))) w = (Some response, w1)
        \<and> parse_content c env response (str_of (get_member result (js ''url''))) w1
            = (Inr (Some pc), w')
        \<and> p_content pc \<noteq> [] \<and> length (p_content pc) \<le> max_content_length c
        \<and> acc' = acc @ [spread_with result (js ''parsed_content'') (JStr (p_content pc))])"
proof (cases result)
  case (JObj ps)
  with assms show ?thesis
    by (auto simp: process_result_def Let_def
        split: if_splits option.splits prod.splits sum.splits dest: parse_content_bound)
qed (use assms in \<open>auto simp: process_result_def Let_def split: if_splits option.splits prod.splits sum.splits\<close>)

lemma process_result_throws:
  "process_result c env result acc w = (Inl e, w') \<Longrightarrow>
     to_string_error (get_member result (js ''url'')) = Some e \<and> w' = w"
  by (auto simp: process_result_def Let_def
      split: if_splits option.splits prod.splits sum.splits)

lemma process_result_returns:
  "to_string_error (get_member result (js ''url'')) = None \<Longrightarrow>
     \<exists>acc' w'. process_result c env result acc w = (Inr acc', w')"
  by (auto simp: process_result_def Let_def
      split: if_splits option.splits prod.splits sum.splits)

lemma for_of_append:
  "for_of c env (xs @ ys) acc w =
     (case for_of c env xs acc w of
        (Inl e, w') \<Rightarrow> (Inl e, w')
      | (Inr acc', w') \<Rightarrow> for_of c env ys acc' w')"
  by (induction xs arbitrary: acc w) (auto split: prod.splits sum.splits)

lemma for_of_returns:
  "\<forall>result\<in>set items. to_string_error (get_member result (js ''url'')) = None \<Longrightarrow>
     \<exists>out w'. for_of c env items acc w = (Inr out, w')"
proof (induction items arbitrary: acc w)
  case Nil
  show ?case by simp
next
  case (Cons r rest)
  then obtain acc1 w1 where "process_result c env r acc w = (Inr acc1, w1)"
    using process_result_returns [of r c env acc w] by auto
  moreover from Cons obtain out w' where "for_of c env rest acc1 w1 = (Inr out, w')"
    by fastforce
  ultimately show ?case by simp
qed

lemma for_of_shape:
  "for_of c env items acc w = (Inr out, w') \<Longrightarrow>
     \<exists>sel pcs. subseq sel items \<and> length pcs = length sel \<and>
        out = acc @ map2 (\<lambda>result pc.
                spread_with result (js ''parsed_content'') (JStr (p_content pc))) sel pcs \<and>
        (\<forall>(result, pc)\<in>set (zip sel pcs).
            (\<exists>ps. result = JObj ps) \<and>
            p_content pc \<noteq> [] \<and> length (p_content pc) \<le> max_content_length c \<and>
            (\<exists>ws response w1 w2.
               fetch_url_content env (str_of (get_member result (js ''url''))) ws
                 = (Some response, w1) \<and>
               parse_content c env response (str_of (get_member result (js ''url''))) w1
                 = (Inr (Some pc), w2)))"
proof (induction items arbitrary: acc w)
  case Nil
  then show ?case by auto
next
  case (Cons r rest)
  let ?enrich = "\<lambda>result pc. spread_with result (js ''parsed_content'') (JStr (p_content pc))"
  let ?ok = "\<lambda>(result, pc). (\<exists>ps. result = JObj ps) \<and>
            p_content pc \<noteq> [] \<and> length (p_content pc) \<le> max_content_length c \<and>
            (\<exists>ws response w1 w2.
               fetch_url_content env (str_of (get_member result (js ''url''))) ws
                 = (Some response, w1) \<and>
               parse_content c env response (str_of (get_member result (js ''url''))) w1
                 = (Inr (Some pc), w2))"
  from Cons.prems obtain acc1 w1 where
    step: "process_result c env r acc w = (Inr acc1, w1)" and
    tail: "for_of c env rest acc1 w1 = (Inr out, w')"
    by (auto split: prod.splits sum.splits)
  from Cons.IH [OF tail] obtain sel pcs where
    sel: "subseq sel rest" "length pcs = length sel"
      "out = acc1 @ map2 ?enrich sel pcs"
      "\<forall>x\<in>set (zip sel pcs). ?ok x"
    by blast
  from process_result_cases [OF step] show ?case
  proof
    assume same: "acc1 = acc"
    from sel(1) have "subseq sel (r # rest)" by auto
    moreover from sel(3) same have "out = acc @ map2 ?enrich sel pcs" by simp
    ultimately show ?thesis using sel(2,4) by blast
  next
    assume "\<exists>ps response w1' pc. r = JObj ps
        \<and> fetch_url_content env (str_of (get_member r (js ''url''))) w = (Some response, w1')
        \<and> parse_content c env response (str_of (get_member r (js ''url''))) w1'
            = (Inr (Some pc), w1)
        \<and> p_content pc \<noteq> [] \<and> length (p_content pc) \<le> max_content_length c
        \<and> acc1 = acc @ [spread_with r (js ''parsed_content'') (JStr (p_content pc))]"
    then obtain ps response w1' pc where r: "r = JObj ps"
      and fetched: "fetch_url_content env (str_of (get_member r (js ''url''))) w
                      = (Some response, w1')"
      and parsed: "parse_content c env response (str_of (get_member r (js ''url''))) w1'
                      = (Inr (Some pc), w1)"
      and bound: "p_content pc \<noteq> []" "length (p_content pc) \<le> max_content_length c"
      and acc1: "acc1 = acc @ [?enrich r pc]"
      by blast
    from fetched parsed have "\<exists>ws response w1 w2.
               fetch_url_content env (str_of (get_member r (js ''url''))) ws
                 = (Some response, w1) \<and>
               parse_content c env response (str_of (get_member r (js ''url''))) w1
                 = (Inr (Some pc), w2)" by blast
    with r bound have ok: "?ok (r, pc)" by simp
    have "subseq (r # sel) (r # rest)" using sel(1) by simp
    moreover have "length (pc # pcs) = length (r # sel)" using sel(2) by simp
    moreover have "out = acc @ map2 ?enrich (r # sel) (pc # pcs)"
      using sel(3) acc1 by simp
    moreover have "\<forall>x\<in>set (zip (r # sel) (pc # pcs)). ?ok x"
      using sel(4) ok by simp
    ultimately show ?thesis by blast
  qed
qed

lemma fetch_and_parse_results_shape:
  assumes "fetch_and_parse_results c env results w = (Inr out, w')"
  shows "\<exists>sel pcs. subseq sel (elements results) \<and> length pcs = length sel \<and>
        out = map2 (\<lambda>result pc.
                spread_with result (js ''parsed_content'') (JStr (p_content pc))) sel pcs \<and>
        (\<forall>(result, pc)\<in>set (zip sel pcs).
            (\<exists>ps. result = JObj ps) \<and>
            p_content pc \<noteq> [] \<and> length (p_content pc) \<le> max_content_length c \<and>
            (\<exists>ws response w1 w2.
               fetch_url_content env (str_of (get_member result (js ''url''))) ws
                 = (Some response, w1) \<and>
               parse_content c env response (str_of (get_member result (js ''url''))) w1
                 = (Inr (Some pc), w2)))"
proof (cases "\<not> js_truthy results \<or> \<not> is_array results")
  case True
  with assms have "out = []" by (simp add: fetch_and_parse_results_def)
  then have "subseq [] (elements results) \<and> length ([]::parsed list) = length ([]::jsval list) \<and>
        out = map2 (\<lambda>result pc.
                spread_with result (js ''parsed_content'') (JStr (p_content pc))) [] []" by simp
  then show ?thesis by fastforce
next
  case False
  with assms have "for_of c env (elements results) [] w = (Inr out, w')"
    by (simp add: fetch_and_parse_results_def)
  from for_of_shape [OF this] show ?thesis by simp
qed

lemma output_item_origin:
  assumes "fetch_and_parse_results c env results w = (Inr out, w')" and "item \<in> set out"
  shows "\<exists>result\<in>set (elements results). \<exists>ps pc ws response w1 w2.
      result = JObj ps \<and>
      item = spread_with result (js ''parsed_content'') (JStr (p_content pc)) \<and>
      p_content pc \<noteq> [] \<and> length (p_content pc) \<le> max_content_length c \<and>
      fetch_url_content env (str_of (get_member result (js ''url''))) ws = (Some response, w1) \<and>
      parse_content c env response (str_of (get_member result (js ''url''))) w1
        = (Inr (Some pc), w2)"
proof -
  from fetch_and_parse_results_shape [OF assms(1)] obtain sel pcs where
    sel: "subseq sel (elements results)"
      "out = map2 (\<lambda>result pc.
                spread_with result (js ''parsed_content'') (JStr (p_content pc))) sel pcs"
      "\<forall>(result, pc)\<in>set (zip sel pcs).
            (\<exists>ps. result = JObj ps) \<and>
            p_content pc \<noteq> [] \<and> length (p_content pc) \<le> max_content_length c \<and>
            (\<exists>ws response w1 w2.
               fetch_url_content env (str_of (get_member result (js ''url''))) ws
                 = (Some response, w1) \<and>
               parse_content c env response (str_of (get_member result (js ''url''))) w1
                 = (Inr (Some pc), w2))"
    by blast
  from assms(2) sel(2) obtain result pc where
    mem: "(result, pc) \<in> set (zip sel pcs)" and
    item: "item = spread_with result (js ''parsed_content'') (JStr (p_content pc))"
    by auto
  from mem have "result \<in> set sel" by (rule set_zip_leftD)
  with sel(1) have "result \<in> set (elements results)"
    using list_emb_set [OF sel(1), of result] by auto
  moreover from sel(3) mem have "(\<exists>ps. result = JObj ps) \<and>
            p_content pc \<noteq> [] \<and> length (p_content pc) \<le> max_content_length c \<and>
            (\<exists>ws response w1 w2.
               fetch_url_content env (str_of (get_member result (js ''url''))) ws
                 = (Some response, w1) \<and>
               parse_content c env response (str_of (get_member result (js ''url''))) w1
                 = (Inr (Some pc), w2))" by auto
  ultimately show ?thesis using item by blast
qed

lemma for_of_origin:
  "for_of c env items acc w = (Inr out, w') \<Longrightarrow>
     \<exists>new. out = acc @ new \<and>
       (\<forall>item\<in>set new. \<exists>pre result post acc_pre ws ws'.
           items = pre @ result # post \<and>
           for_of c env pre acc w = (Inr acc_pre, ws) \<and>
           process_result c env result acc_pre ws = (Inr (acc_pre @ [item]), ws'))"
proof (induction items arbitrary: acc w)
  case Nil
  then show ?case by simp
next
  case (Cons r rest)
  from Cons.prems obtain acc1 w1 where
    step: "process_result c env r acc w = (Inr acc1, w1)" and
    tail: "for_of c env rest acc1 w1 = (Inr out, w')"
    by (auto split: prod.splits sum.splits)
  from Cons.IH [OF tail] obtain new where
    out: "out = acc1 @ new" and
    new: "\<forall>item\<in>set new. \<exists>pre result post acc_pre ws ws'.
           rest = pre @ result # post \<and>
           for_of c env pre acc1 w1 = (Inr acc_pre, ws) \<and>
           process_result c env result acc_pre ws = (Inr (acc_pre @ [item]), ws')"
    by blast
  have later: "\<exists>pre result post acc_pre ws ws'.
           r # rest = pre @ result # post \<and>
           for_of c env pre acc w = (Inr acc_pre, ws) \<and>
           process_result c env result acc_pre ws = (Inr (acc_pre @ [item]), ws')"
    if "item \<in> set new" for item
  proof -
    from new that obtain pre result post acc_pre ws ws' where
      *: "rest = pre @ result # post" "for_of c env pre acc1 w1 = (Inr acc_pre, ws)"
         "process_result c env result acc_pre ws = (Inr (acc_pre @ [item]), ws')"
      by blast
    have "r # rest = (r # pre) @ result # post" using *(1) by simp
    moreover have "for_of c env (r # pre) acc w = (Inr acc_pre, ws)"
      using step *(2) by simp
    ultimately show ?thesis using *(3) by blast
  qed
  from process_result_cases [OF step] consider
    (skip) "acc1 = acc" | (push) x where "acc1 = acc @ [x]" by blast
  then show ?case
  proof cases
    case skip
    with out later show ?thesis by blast
  next
    case push
    have first: "\<exists>pre result post acc_pre ws ws'.
           r # rest = pre @ result # post \<and>
           for_of c env pre acc w = (Inr acc_pre, ws) \<and>
           process_result c env result acc_pre ws = (Inr (acc_pre @ [x]), ws')"
    proof -
      have "r # rest = [] @ r # rest" by simp
      moreover have "for_of c env [] acc w = (Inr acc, w)" by simp
      moreover have "process_result c env r acc w = (Inr (acc @ [x]), w1)"
        using step push by simp
      ultimately show ?thesis by blast
    qed
    have "out = acc @ (x # new)" using out push by simp
    moreover have "\<forall>item\<in>set (x # new). \<exists>pre result post acc_pre ws ws'.
           r # rest = pre @ result # post \<and>
           for_of c env pre acc w = (Inr acc_pre, ws) \<and>
           process_result c env result acc_pre ws = (Inr (acc_pre @ [item]), ws')"
      using first later by auto
    ultimately show ?thesis by blast
  qed
qed

section \<open>The loop over the store\<close>

lemma deref_append: "element_ok h x \<Longrightarrow> deref (h @ ext) x = deref h x"
  by (cases x) (auto simp: nth_append)

lemma process_result_ref_cases:
  assumes "process_result_ref c env x acc h w = (Inr acc', h', w')"
  shows "(acc' = acc \<and> h' = h) \<or>
    (\<exists>ps response w1 pc. deref h x = JObj ps
        \<and> fetch_url_content env (str_of (get_member (JObj ps) (js ''url''))) w = (Some response, w1)
        \<and> parse_content c env response (str_of (get_member (JObj ps) (js ''url''))) w1
            = (Inr (Some pc), w')
        \<and> p_content pc \<noteq> []
        \<and> acc' = acc @ [Ref (length h)]
        \<and> h' = h @ [JObj (set_prop ps (js ''parsed_content'') (JStr (p_content pc)))])"
proof (cases "deref h x")
  case (JObj ps)
  with assms show ?thesis
    by (auto simp: process_result_ref_def Let_def alloc_def spread_with_def
        split: if_splits option.splits prod.splits sum.splits)
qed (use assms in \<open>auto simp: process_result_ref_def Let_def alloc_def
        split: if_splits option.splits prod.splits sum.splits\<close>)

lemma process_result_ref_grows:
  "process_result_ref c env x acc h w = (r, h', w') \<Longrightarrow> \<exists>ext. h' = h @ ext"
  by (auto simp: process_result_ref_def Let_def alloc_def
      split: if_splits option.splits prod.splits sum.splits)

lemma for_of_ref_grows:
  "for_of_ref c env items acc h w = (r, h', w') \<Longrightarrow> \<exists>ext. h' = h @ ext"
proof (induction items arbitrary: acc h w)
  case Nil
  then show ?case by simp
next
  case (Cons x rest)
  obtain r1 h1 w1 where step: "process_result_ref c env x acc h w = (r1, h1, w1)"
    by (cases "process_result_ref c env x acc h w") auto
  from process_result_ref_grows [OF step] obtain e1 where h1: "h1 = h @ e1" by blast
  show ?case
  proof (cases r1)
    case (Inl e)
    with Cons.prems step h1 show ?thesis by auto
  next
    case (Inr acc1)
    with Cons.prems step have "for_of_ref c env rest acc1 h1 w1 = (r, h', w')" by simp
    from Cons.IH [OF this] obtain e2 where "h' = h1 @ e2" by blast
    with h1 have "h' = h @ (e1 @ e2)" by simp
    then show ?thesis by blast
  qed
qed

text \<open>The loop over the store computes what the loop over values computes.\<close>

lemma process_result_ref_refines:
  "process_result c env (deref h x) vs w =
     (case process_result_ref c env x acc h w of
        (Inl e, h', w') \<Rightarrow> (Inl e, w')
      | (Inr acc', h', w') \<Rightarrow> (Inr (vs @ drop (length h) h'), w'))"
  by (auto simp: process_result_def process_result_ref_def Let_def alloc_def
      split: if_splits option.splits prod.splits sum.splits)

lemma elements_ok_append: "elements_ok h items \<Longrightarrow> elements_ok (h @ ext) items"
proof -
  have "element_ok (h @ ext) x" if "element_ok h x" for x
    using that by (cases x) auto
  then show "elements_ok h items \<Longrightarrow> elements_ok (h @ ext) items"
    by (auto simp: elements_ok_def list_all_iff)
qed

lemma map_deref_append:
  "elements_ok h items \<Longrightarrow> map (deref (h @ ext)) items = map (deref h) items"
  by (auto simp: elements_ok_def list_all_iff deref_append)

lemma for_of_ref_refines:
  "elements_ok h items \<Longrightarrow>
   for_of c env (map (deref h) items) vs w =
     (case for_of_ref c env items acc h w of
        (Inl e, h', w') \<Rightarrow> (Inl e, w')
      | (Inr acc', h', w') \<Rightarrow> (Inr (vs @ drop (length h) h'), w'))"
proof (induction items arbitrary: vs acc h w)
  case Nil
  show ?case by simp
next
  case (Cons x rest)
  obtain r1 h1 w1 where step: "process_result_ref c env x acc h w = (r1, h1, w1)"
    by (cases "process_result_ref c env x acc h w") auto
  from process_result_ref_grows [OF step] obtain e1 where h1: "h1 = h @ e1" by blast
  from Cons.prems have ok: "elements_ok h rest"
    by (simp add: elements_ok_def)
  show ?case
  proof (cases r1)
    case (Inl e)
    with step process_result_ref_refines [of c env h x vs w acc] show ?thesis by simp
  next
    case (Inr acc1)
    with step process_result_ref_refines [of c env h x vs w acc] h1
    have v: "process_result c env (deref h x) vs w = (Inr (vs @ e1), w1)" by simp
    have IH: "for_of c env (map (deref h1) rest) (vs @ e1) w1 =
       (case for_of_ref c env rest acc1 h1 w1 of
          (Inl e, h', w') \<Rightarrow> (Inl e, w')
        | (Inr acc', h', w') \<Rightarrow> (Inr ((vs @ e1) @ drop (length h1) h'), w'))"
      unfolding h1 by (rule Cons.IH [OF elements_ok_append [OF ok]])
    have same: "map (deref h1) rest = map (deref h) rest"
      unfolding h1 by (rule map_deref_append [OF ok])
    obtain r2 h2 w2 where tail: "for_of_ref c env rest acc1 h1 w1 = (r2, h2, w2)"
      by (cases "for_of_ref c env rest acc1 h1 w1") auto
    from for_of_ref_grows [OF tail] obtain e2 where h2: "h2 = h1 @ e2" by blast
    have IH': "for_of c env (map (deref h) rest) (vs @ e1) w1 =
       (case (r2, h2, w2) of
          (Inl e, h', w') \<Rightarrow> (Inl e, w')
        | (Inr acc', h', w') \<Rightarrow> (Inr ((vs @ e1) @ drop (length h1) h'), w'))"
      using IH unfolding same tail .
    have lhs: "for_of c env (map (deref h) (x # rest)) vs w
        = for_of c env (map (deref h) rest) (vs @ e1) w1"
      using v by simp
    have rhs: "for_of_ref c env (x # rest) acc h w = (r2, h2, w2)"
      using step Inr tail by simp
    show ?thesis
      unfolding lhs rhs IH' using h1 h2 by (cases r2) simp_all
  qed
qed

lemma for_of_ref_origin:
  "for_of_ref c env items acc h w = (Inr out, h', w') \<Longrightarrow>
     \<exists>new. out = acc @ new \<and>
       (\<forall>x\<in>set new. \<exists>pre result post acc_pre hs ws ws'.
           items = pre @ result # post \<and>
           for_of_ref c env pre acc h w = (Inr acc_pre, hs, ws) \<and>
           process_result_ref c env result acc_pre hs ws
             = (Inr (acc_pre @ [x]), hs @ [h' ! length hs], ws') \<and>
           x = Ref (length hs) \<and> length hs < length h')"
proof (induction items arbitrary: acc h w)
  case Nil
  then show ?case by simp
next
  case (Cons r rest)
  from Cons.prems obtain acc1 h1 w1 where
    step: "process_result_ref c env r acc h w = (Inr acc1, h1, w1)" and
    tail: "for_of_ref c env rest acc1 h1 w1 = (Inr out, h', w')"
    by (auto split: prod.splits sum.splits)
  from for_of_ref_grows [OF tail] obtain e2 where h': "h' = h1 @ e2" by blast
  from Cons.IH [OF tail] obtain new where
    out: "out = acc1 @ new" and
    new: "\<forall>x\<in>set new. \<exists>pre result post acc_pre hs ws ws'.
           rest = pre @ result # post \<and>
           for_of_ref c env pre acc1 h1 w1 = (Inr acc_pre, hs, ws) \<and>
           process_result_ref c env result acc_pre hs ws
             = (Inr (acc_pre @ [x]), hs @ [h' ! length hs], ws') \<and>
           x = Ref (length hs) \<and> length hs < length h'"
    by blast
  have later: "\<exists>pre result post acc_pre hs ws ws'.
           r # rest = pre @ result # post \<and>
           for_of_ref c env pre acc h w = (Inr acc_pre, hs, ws) \<and>
           process_result_ref c env result acc_pre hs ws
             = (Inr (acc_pre @ [x]), hs @ [h' ! length hs], ws') \<and>
           x = Ref (length hs) \<and> length hs < length h'"
    if "x \<in> set new" for x
  proof -
    from new that obtain pre result post acc_pre hs ws ws' where
      *: "rest = pre @ result # post" "for_of_ref c env pre acc1 h1 w1 = (Inr acc_pre, hs, ws)"
         "process_result_ref c env result acc_pre hs ws
             = (Inr (acc_pre @ [x]), hs @ [h' ! length hs], ws')"
         "x = Ref (length hs)" "length hs < length h'"
      by blast
    have "r # rest = (r # pre) @ result # post" using *(1) by simp
    moreover have "for_of_ref c env (r # pre) acc h w = (Inr acc_pre, hs, ws)"
      using step *(2) by simp
    ultimately show ?thesis using *(3,4,5) by blast
  qed
  from process_result_ref_cases [OF step] consider
    (skip) "acc1 = acc" "h1 = h" | (push) obj where "acc1 = acc @ [Ref (length h)]" "h1 = h @ [obj]"
    by blast
  then show ?case
  proof cases
    case skip
    with out later show ?thesis by blast
  next
    case push
    have nth: "h' ! length h = obj" "length h < length h'"
      using h' push(2) by (simp_all add: nth_append)
    have first: "\<exists>pre result post acc_pre hs ws ws'.
           r # rest = pre @ result # post \<and>
           for_of_ref c env pre acc h w = (Inr acc_pre, hs, ws) \<and>
           process_result_ref c env result acc_pre hs ws
             = (Inr (acc_pre @ [Ref (length h)]), hs @ [h' ! length hs], ws') \<and>
           Ref (length h) = Ref (length hs) \<and> length hs < length h'"
    proof -
      have "r # rest = [] @ r # rest" by simp
      moreover have "for_of_ref c env [] acc h w = (Inr acc, h, w)" by simp
      moreover have "process_result_ref c env r acc h w
          = (Inr (acc @ [Ref (length h)]), h @ [h' ! length h], w1)"
        using step push nth by simp
      ultimately show ?thesis using nth(2) by blast
    qed
    have "out = acc @ (Ref (length h) # new)" using out push by simp
    moreover have "\<forall>x\<in>set (Ref (length h) # new). \<exists>pre result post acc_pre hs ws ws'.
           r # rest = pre @ result # post \<and>
           for_of_ref c env pre acc h w = (Inr acc_pre, hs, ws) \<and>
           process_result_ref c env result acc_pre hs ws
             = (Inr (acc_pre @ [x]), hs @ [h' ! length hs], ws') \<and>
           x = Ref (length hs) \<and> length hs < length h'"
      using first later by auto
    ultimately show ?thesis by blast
  qed
qed

lemma fetch_and_parse_results_ref_refines:
  "elements_ok h items \<Longrightarrow>
   fetch_and_parse_results c env (JArr (map (deref h) items)) w =
     (case fetch_and_parse_results_ref c env items h w of
        (Inl e, h', w') \<Rightarrow> (Inl e, w')
      | (Inr out, h', w') \<Rightarrow> (Inr (drop (length h) h'), w'))"
  using for_of_ref_refines [of h items c env "[]" w "[]"]
  by (simp add: fetch_and_parse_results_def fetch_and_parse_results_ref_def
      split: prod.splits sum.splits)

section \<open>Running the scenarios\<close>

text \<open>
  The definitions unfold on the concrete world under the simplifier. \<open>dec\<close> is
  unfolded on numerals only.
\<close>

lemmas client_defs =
  fetch_and_parse_results_def process_result_def is_valid_url_def parse_content_def
  pdf_branch_def markup_branch_def declared_content_type_def parsing_promise_def
  settle_content_def resolve_def reject_def extract_text_from_pdf_def temp_file_path_def
  fetch_url_content_def axios_get_def emit_def slice0_def spread_with_def
  search_def search_and_parse_def trim_def js_def is_space_def

lemmas scenario_defs =
  scenario_env_def scenario_http_def slow_pdf_env_def w0_def item_a_def stale_item_def
  unprintable_item_def hello_html_def SearXNGClient_def mixed_items_def
  uppercase_pdf_response_def empty_page_response_def

lemma dec_numeral:
  "dec (numeral k) = (if numeral k < (10::nat) then [48 + numeral k]
     else dec (numeral k div 10) @ [48 + numeral k mod 10])"
  by (rule dec.simps)

lemma dec_small: "dec 0 = [48]" "dec 1 = [49]" "dec (Suc 0) = [49]"
  by (simp_all add: dec.simps)

lemmas eval_defs = client_defs scenario_defs dec_numeral dec_small Let_def

lemma run_item_a:
  "fetch_and_parse_results SearXNGClient scenario_env (JArr [item_a]) w0 =
     (Inr [JObj [(js ''url'', JStr (js ''https://a.test'')), (js ''title'', JStr (js ''A'')),
                 (js ''parsed_content'', JStr (js ''Hello world''))]],
      \<lparr>tick = 2, files = {},
       trace = [HttpGet (js ''https://a.test''), ReadabilityParse (js ''https://a.test'')]\<rparr>)"
  by (simp add: eval_defs)

lemma run_stale_item:
  "fetch_and_parse_results SearXNGClient scenario_env (JArr [stale_item]) w0 =
     (Inr [JObj [(js ''parsed_content'', JStr (js ''Hello world'')),
                 (js ''url'', JStr (js ''https://a.test''))]],
      \<lparr>tick = 2, files = {},
       trace = [HttpGet (js ''https://a.test''), ReadabilityParse (js ''https://a.test'')]\<rparr>)"
  by (simp add: eval_defs)

lemma run_mixed:
  "fetch_and_parse_results SearXNGClient scenario_env (JArr mixed_items) w0 =
     (Inr [JObj [(js ''url'', JStr (js ''https://b.test/doc.pdf'')),
                 (js ''parsed_content'', JStr (js ''Document text''))],
           JObj [(js ''url'', JStr (js ''https://c.test'')),
                 (js ''parsed_content'', JStr (js ''plain text''))]],
      \<lparr>tick = 8, files = {},
       trace = [HttpGet (js ''https://b.test/doc.pdf''),
                WriteFile (js ''/tmp/temp_1700000000001.pdf''),
                Exec (js ''pdf2txt.py '' @ [34] @ js ''/tmp/temp_1700000000001.pdf'' @ [34]),
                Unlink (js ''/tmp/temp_1700000000001.pdf''),
                HttpGet (js ''https://d.test''),
                HttpGet (js ''https://c.test''),
                ReadabilityParse (js ''https://c.test''),
                CheerioLoad]\<rparr>)"
  by (simp add: eval_defs)

lemma run_search:
  "search_and_parse SearXNGClient scenario_env (js ''q'') (js ''en'') w0 =
     (Inr [JObj [(js ''url'', JStr (js ''https://a.test'')),
                 (js ''parsed_content'', JStr (js ''Hello world''))]],
      \<lparr>tick = 3, files = {},
       trace = [SearchGet (js ''q'') (js ''en''), HttpGet (js ''https://a.test''),
                ReadabilityParse (js ''https://a.test'')]\<rparr>)"
  by (simp add: eval_defs)

section \<open>The claims\<close>

text \<open>
  Claim C1. Every item of the list that \<open>fetch_and_parse_results\<close> returns has a
  \<open>parsed_content\<close> that is a string, not empty, of at most
  \<open>max_content_length\<close> code units.
\<close>

theorem parsed_content_bounded:
  assumes "fetch_and_parse_results c env results w = (Inr out, w')" and "item \<in> set out"
  shows "\<exists>s. get_member item (js ''parsed_content'') = JStr s
            \<and> 0 < length s \<and> length s \<le> max_content_length c"
proof -
  from output_item_origin [OF assms] obtain result and pc :: parsed where
    "item = spread_with result (js ''parsed_content'') (JStr (p_content pc))"
    "p_content pc \<noteq> []" "length (p_content pc) \<le> max_content_length c"
    by (elim bexE exE conjE) blast
  then show ?thesis by (simp add: get_member_spread_same)
qed

theorem parsed_content_bounded_witness:
  "fetch_and_parse_results SearXNGClient scenario_env (JArr [item_a]) w0 =
     (Inr [JObj [(js ''url'', JStr (js ''https://a.test'')), (js ''title'', JStr (js ''A'')),
                 (js ''parsed_content'', JStr (js ''Hello world''))]],
      \<lparr>tick = 2, files = {},
       trace = [HttpGet (js ''https://a.test''), ReadabilityParse (js ''https://a.test'')]\<rparr>)
   \<and> (\<exists>s. get_member (JObj [(js ''url'', JStr (js ''https://a.test'')),
                 (js ''title'', JStr (js ''A'')),
                 (js ''parsed_content'', JStr (js ''Hello world''))]) (js ''parsed_content'') = JStr s
          \<and> 0 < length s \<and> length s \<le> max_content_length SearXNGClient)"
  using parsed_content_bounded [OF run_item_a, of "JObj [(js ''url'', JStr (js ''https://a.test'')),
                 (js ''title'', JStr (js ''A'')),
                 (js ''parsed_content'', JStr (js ''Hello world''))]"] run_item_a
  by simp

text \<open>
  Claim C2. The output is no longer than the input array, every output item has the
  \<open>url\<close> of an input item, and the output is, in order, a subsequence of the input
  with \<open>parsed_content\<close> set on each of its items.
\<close>

theorem output_follows_input:
  assumes "fetch_and_parse_results c env (JArr items) w = (Inr out, w')"
  shows "length out \<le> length items
    \<and> (\<forall>item\<in>set out. \<exists>result\<in>set items.
          get_member item (js ''url'') = get_member result (js ''url''))
    \<and> (\<exists>sel contents. subseq sel items \<and> length contents = length sel
          \<and> out = map2 (\<lambda>result content.
                  spread_with result (js ''parsed_content'') (JStr content)) sel contents)"
proof -
  from fetch_and_parse_results_shape [OF assms] obtain sel and pcs :: "parsed list" where
    sel: "subseq sel items" "length pcs = length sel"
      "out = map2 (\<lambda>result pc.
                  spread_with result (js ''parsed_content'') (JStr (p_content pc))) sel pcs"
    unfolding elements.simps by (elim exE conjE) blast
  have len: "length out \<le> length items"
    using sel(2,3) list_emb_length [OF sel(1)] by simp
  have urls: "\<forall>item\<in>set out. \<exists>result\<in>set items.
          get_member item (js ''url'') = get_member result (js ''url'')"
  proof
    fix item assume "item \<in> set out"
    from output_item_origin [OF assms this] obtain result ps and pc :: parsed where
      result: "result \<in> set items" "result = JObj ps"
        "item = spread_with result (js ''parsed_content'') (JStr (p_content pc))"
      unfolding elements.simps by (elim bexE exE conjE) blast
    have ne: "js ''url'' \<noteq> js ''parsed_content''"
      by (simp add: js_inject)
    have "get_member item (js ''url'') = get_member result (js ''url'')"
      unfolding result(3) result(2) by (rule get_member_spread_other [OF ne])
    with result(1) show "\<exists>result\<in>set items.
          get_member item (js ''url'') = get_member result (js ''url'')" by blast
  qed
  have "out = map2 (\<lambda>result content.
                  spread_with result (js ''parsed_content'') (JStr content))
              sel (map p_content pcs)"
    unfolding sel(3) by (auto simp: zip_map2)
  moreover have "length (map p_content pcs) = length sel"
    using sel(2) by simp
  ultimately have "\<exists>sel contents. subseq sel items \<and> length contents = length sel
          \<and> out = map2 (\<lambda>result content.
                  spread_with result (js ''parsed_content'') (JStr content)) sel contents"
    using sel(1) by blast
  with len urls show ?thesis by (intro conjI)
qed

theorem output_follows_input_witness:
  "fetch_and_parse_results SearXNGClient scenario_env (JArr mixed_items) w0 =
     (Inr [JObj [(js ''url'', JStr (js ''https://b.test/doc.pdf'')),
                 (js ''parsed_content'', JStr (js ''Document text''))],
           JObj [(js ''url'', JStr (js ''https://c.test'')),
                 (js ''parsed_content'', JStr (js ''plain text''))]],
      \<lparr>tick = 8, files = {},
       trace = [HttpGet (js ''https://b.test/doc.pdf''),
                WriteFile (js ''/tmp/temp_1700000000001.pdf''),
                Exec (js ''pdf2txt.py '' @ [34] @ js ''/tmp/temp_1700000000001.pdf'' @ [34]),
                Unlink (js ''/tmp/temp_1700000000001.pdf''),
                HttpGet (js ''https://d.test''),
                HttpGet (js ''https://c.test''),
                ReadabilityParse (js ''https://c.test''),
                CheerioLoad]\<rparr>)
   \<and> length [JObj [(js ''url'', JStr (js ''https://b.test/doc.pdf'')),
                 (js ''parsed_content'', JStr (js ''Document text''))],
           JObj [(js ''url'', JStr (js ''https://c.test'')),
                 (js ''parsed_content'', JStr (js ''plain text''))]]
       \<le> length mixed_items
   \<and> (\<exists>sel contents. subseq sel mixed_items \<and> length contents = length sel
          \<and> [JObj [(js ''url'', JStr (js ''https://b.test/doc.pdf'')),
                 (js ''parsed_content'', JStr (js ''Document text''))],
           JObj [(js ''url'', JStr (js ''https://c.test'')),
                 (js ''parsed_content'', JStr (js ''plain text''))]]
             = map2 (\<lambda>result content.
                  spread_with result (js ''parsed_content'') (JStr content)) sel contents)"
  using output_follows_input [OF run_mixed] run_mixed
  by (elim conjE) (intro conjI, assumption+)

text \<open>
  Claim C3. The temporary file is removed only when the race is won by a converter that
  succeeds. With a converter that times out, \<open>_extract_text_from_pdf\<close> returns
  \<open>null\<close> and the file it wrote is still there, with no \<open>unlink\<close> attempted; with
  the converter of the scenarios the same call removes the file.
\<close>

theorem temp_file_left_after_timeout:
  "extract_text_from_pdf slow_pdf_env (js ''https://b.test/doc.pdf'') (js ''%PDF-1.4'') w0 =
     (None,
      \<lparr>tick = 2, files = {js ''/tmp/temp_1700000000000.pdf''},
       trace = [WriteFile (js ''/tmp/temp_1700000000000.pdf''),
                Exec (js ''pdf2txt.py '' @ [34] @ js ''/tmp/temp_1700000000000.pdf'' @ [34])]\<rparr>)
   \<and> extract_text_from_pdf scenario_env (js ''https://b.test/doc.pdf'') (js ''%PDF-1.4'') w0 =
     (Some (js ''Document text''),
      \<lparr>tick = 3, files = {},
       trace = [WriteFile (js ''/tmp/temp_1700000000000.pdf''),
                Exec (js ''pdf2txt.py '' @ [34] @ js ''/tmp/temp_1700000000000.pdf'' @ [34]),
                Unlink (js ''/tmp/temp_1700000000000.pdf'')]\<rparr>)"
  by (simp add: eval_defs)

lemma parsing_promise_trace:
  "parsing_promise c env html url w = (p, w') \<Longrightarrow>
     trace w' = trace w @ ReadabilityParse url #
       (if readability env html url = Inr None \<or> readability env html url = Inr (Some [])
        then [CheerioLoad] else [])"
  by (auto simp: parsing_promise_def Let_def emit_def split: sum.splits option.splits if_splits)

lemma parsing_promise_both_empty:
  assumes "readability env html url = Inr None \<or> readability env html url = Inr (Some [])"
    and "cheerio_body_text env html = Inr text" and "trim (collapse_ws text) = []"
  shows "fst (parsing_promise c env html url w) = Some (Resolved None)"
  using assms by (auto simp: parsing_promise_def Let_def settle_content_empty)

text \<open>
  Claim C4. In the markup branch of \<open>_parse_content\<close> (the header does not name the
  PDF type and the decoded body is not empty), Readability is called, and Cheerio is
  called after it exactly when Readability yields an absent or empty text; when the
  Cheerio text is empty too, once collapsed and trimmed, the result is \<open>null\<close>.
\<close>

theorem cheerio_fallback_exactly_when_readability_empty:
  assumes "\<not> js_includes (declared_content_type response) (js ''application/pdf'')"
    and "data response = Some buffer"
    and "buffer_to_string env buffer = html" and "html \<noteq> []"
    and "parse_content c env response url w = (r, w')"
  shows "trace w' = trace w @ ReadabilityParse url #
            (if readability env html url = Inr None \<or> readability env html url = Inr (Some [])
             then [CheerioLoad] else [])
       \<and> ((readability env html url = Inr None \<or> readability env html url = Inr (Some []))
            \<longrightarrow> (\<forall>text. cheerio_body_text env html = Inr text
                  \<longrightarrow> trim (collapse_ws text) = [] \<longrightarrow> r = Inr None))"
proof -
  obtain p w1 where pp: "parsing_promise c env html url w = (p, w1)"
    by (cases "parsing_promise c env html url w")
  from assms pp have r: "w' = w1"
    "r = (case p of Some (Resolved v) \<Rightarrow> Inr v | Some (Rejected e) \<Rightarrow> Inr None | None \<Rightarrow> Inr None)"
    by (auto simp: parse_content_def markup_branch_def Let_def
        split: option.splits settled.splits)
  have "trace w' = trace w @ ReadabilityParse url #
            (if readability env html url = Inr None \<or> readability env html url = Inr (Some [])
             then [CheerioLoad] else [])"
    using parsing_promise_trace [OF pp] r(1) by simp
  moreover have "r = Inr None"
    if "readability env html url = Inr None \<or> readability env html url = Inr (Some [])"
      and "cheerio_body_text env html = Inr stripped" and "trim (collapse_ws stripped) = []"
    for stripped
    using parsing_promise_both_empty [OF that, of c w] pp r(2) by simp
  ultimately show ?thesis by blast
qed

theorem cheerio_fallback_witness:
  "\<not> js_includes (declared_content_type empty_page_response) (js ''application/pdf'')
   \<and> data empty_page_response = Some (js ''<html></html>'')
   \<and> buffer_to_string scenario_env (js ''<html></html>'') = js ''<html></html>''
   \<and> js ''<html></html>'' \<noteq> []
   \<and> parse_content SearXNGClient scenario_env empty_page_response (js ''https://e.test'') w0
       = (Inr None, \<lparr>tick = 2, files = {},
            trace = [ReadabilityParse (js ''https://e.test''), CheerioLoad]\<rparr>)
   \<and> readability scenario_env (js ''<html></html>'') (js ''https://e.test'') = Inr None
   \<and> cheerio_body_text scenario_env (js ''<html></html>'') = Inr []
   \<and> trim (collapse_ws []) = []
   \<and> trace \<lparr>tick = 2, files = {},
            trace = [ReadabilityParse (js ''https://e.test''), CheerioLoad]\<rparr>
       = trace w0 @ ReadabilityParse (js ''https://e.test'') #
           (if readability scenario_env (js ''<html></html>'') (js ''https://e.test'') = Inr None
               \<or> readability scenario_env (js ''<html></html>'') (js ''https://e.test'')
                   = Inr (Some [])
            then [CheerioLoad] else [])"
proof -
  have a: "\<not> js_includes (declared_content_type empty_page_response) (js ''application/pdf'')"
    by (simp add: eval_defs)
  have b: "data empty_page_response = Some (js ''<html></html>'')"
    by (simp add: eval_defs)
  have c: "buffer_to_string scenario_env (js ''<html></html>'') = js ''<html></html>''"
    by (simp add: eval_defs)
  have d: "js ''<html></html>'' \<noteq> []"
    by (simp add: js_def)
  have e: "parse_content SearXNGClient scenario_env empty_page_response (js ''https://e.test'') w0
       = (Inr None, \<lparr>tick = 2, files = {},
            trace = [ReadabilityParse (js ''https://e.test''), CheerioLoad]\<rparr>)"
    by (simp add: eval_defs)
  have f: "readability scenario_env (js ''<html></html>'') (js ''https://e.test'') = Inr None"
    by (simp add: eval_defs)
  have g: "cheerio_body_text scenario_env (js ''<html></html>'') = Inr []"
    by (simp add: eval_defs)
  have h: "trim (collapse_ws []) = []"
    by (simp add: trim_def)
  from cheerio_fallback_exactly_when_readability_empty [OF a b c d e]
  have "trace \<lparr>tick = 2, files = {},
            trace = [ReadabilityParse (js ''https://e.test''), CheerioLoad]\<rparr>
       = trace w0 @ ReadabilityParse (js ''https://e.test'') #
           (if readability scenario_env (js ''<html></html>'') (js ''https://e.test'') = Inr None
               \<or> readability scenario_env (js ''<html></html>'') (js ''https://e.test'')
                   = Inr (Some [])
            then [CheerioLoad] else [])"
    by (rule conjunct1)
  with a b c d e f g h show ?thesis by (intro conjI)
qed

lemma extract_text_from_pdf_trace:
  "extract_text_from_pdf env url buffer w = (r, w') \<Longrightarrow>
     \<exists>evs. trace w' = trace w @ WriteFile (temp_file_path (date_now env (tick w))) # evs"
  by (auto simp: extract_text_from_pdf_def Let_def emit_def
      split: option.splits exec_outcome.splits if_splits)

lemma markup_branch_trace:
  "markup_branch c env response url w = (r, w') \<Longrightarrow>
     \<exists>evs. trace w' = trace w @ evs \<and> set evs \<subseteq> {ReadabilityParse url, CheerioLoad}"
  by (auto simp: markup_branch_def Let_def
      split: option.splits if_splits prod.splits settled.splits
      dest!: parsing_promise_trace)

text \<open>
  Claim C5, as the specification words it, fails: the header
  \<open>Application/PDF; charset=x\<close> matches the media type when letter case is ignored,
  and \<open>_parse_content\<close> sends the reply down the markup branch: Readability and
  Cheerio run, no file is written and no converter is started.
\<close>

theorem uppercase_pdf_header_takes_markup_branch:
  "spec_is_binary_document (declared_content_type uppercase_pdf_response)
   \<and> parse_content SearXNGClient scenario_env uppercase_pdf_response (js ''https://c.test'') w0 =
       (Inr (Some \<lparr>p_url = js ''https://c.test'', p_content = js ''plain text''\<rparr>),
        \<lparr>tick = 2, files = {},
         trace = [ReadabilityParse (js ''https://c.test''), CheerioLoad]\<rparr>)"
  by (simp add: eval_defs spec_is_binary_document_def ascii_lower_def)

text \<open>
  Claim C5, amended. \<open>_parse_content\<close> takes the PDF branch exactly when the header
  (the empty string when absent) contains the code units of \<open>application/pdf\<close>, in
  this letter case, at any position, whatever stands before or after them; every other
  header takes the markup branch. For a reply with a body, the extractor writes its
  temporary file exactly in that case.
\<close>

theorem dispatch_on_exact_substring:
  assumes "parse_content c env response url w = (r, w')" and "data response = Some buffer"
  shows "parse_content c env response url w =
           (if \<exists>pre post. declared_content_type response = pre @ js ''application/pdf'' @ post
            then pdf_branch c env response url w else markup_branch c env response url w)
       \<and> ((\<exists>path. WriteFile path \<in> set (drop (length (trace w)) (trace w')))
            = (\<exists>pre post. declared_content_type response = pre @ js ''application/pdf'' @ post))"
proof -
  let ?match = "\<exists>pre post. declared_content_type response = pre @ js ''application/pdf'' @ post"
  have iff: "js_includes (declared_content_type response) (js ''application/pdf'') = ?match"
    by (rule js_includes_iff)
  have eq: "parse_content c env response url w =
           (if ?match then pdf_branch c env response url w else markup_branch c env response url w)"
    unfolding parse_content_def Let_def iff ..
  have "(\<exists>path. WriteFile path \<in> set (drop (length (trace w)) (trace w'))) = ?match"
  proof (cases ?match)
    case True
    with eq assms(1) have "pdf_branch c env response url w = (r, w')" by simp
    with assms(2) obtain r0 where "extract_text_from_pdf env url buffer w = (r0, w')"
      by (auto simp: pdf_branch_def split: prod.splits option.splits if_splits)
    from extract_text_from_pdf_trace [OF this] obtain evs where
      "trace w' = trace w @ WriteFile (temp_file_path (date_now env (tick w))) # evs" by blast
    then have "WriteFile (temp_file_path (date_now env (tick w)))
                 \<in> set (drop (length (trace w)) (trace w'))" by simp
    with True show ?thesis by blast
  next
    case False
    with eq assms(1) have "markup_branch c env response url w = (r, w')" by simp
    from markup_branch_trace [OF this] obtain evs where
      evs: "trace w' = trace w @ evs" "set evs \<subseteq> {ReadabilityParse url, CheerioLoad}" by blast
    then have "\<forall>path. WriteFile path \<notin> set (drop (length (trace w)) (trace w'))" by auto
    with False show ?thesis by blast
  qed
  with eq show ?thesis by (intro conjI)
qed

theorem dispatch_on_exact_substring_witness:
  "parse_content SearXNGClient scenario_env
      \<lparr>status = 200, content_type = Some (js ''text/html; x=application/pdf''),
       data = Some (js ''%PDF-1.4'')\<rparr> (js ''https://b.test/doc.pdf'') w0 =
     (Inr (Some \<lparr>p_url = js ''https://b.test/doc.pdf'', p_content = js ''Document text''\<rparr>),
      \<lparr>tick = 3, files = {},
       trace = [WriteFile (js ''/tmp/temp_1700000000000.pdf''),
                Exec (js ''pdf2txt.py '' @ [34] @ js ''/tmp/temp_1700000000000.pdf'' @ [34]),
                Unlink (js ''/tmp/temp_1700000000000.pdf'')]\<rparr>)
   \<and> data \<lparr>status = 200, content_type = Some (js ''text/html; x=application/pdf''),
       data = Some (js ''%PDF-1.4'')\<rparr> = Some (js ''%PDF-1.4'')
   \<and> ((\<exists>path. WriteFile path \<in> set (drop (length (trace w0))
          (trace \<lparr>tick = 3, files = {},
             trace = [WriteFile (js ''/tmp/temp_1700000000000.pdf''),
                Exec (js ''pdf2txt.py '' @ [34] @ js ''/tmp/temp_1700000000000.pdf'' @ [34]),
                Unlink (js ''/tmp/temp_1700000000000.pdf'')]\<rparr>)))
        = (\<exists>pre post. declared_content_type
              \<lparr>status = 200, content_type = Some (js ''text/html; x=application/pdf''),
               data = Some (js ''%PDF-1.4'')\<rparr> = pre @ js ''application/pdf'' @ post))"
proof -
  have a: "parse_content SearXNGClient scenario_env
      \<lparr>status = 200, content_type = Some (js ''text/html; x=application/pdf''),
       data = Some (js ''%PDF-1.4'')\<rparr> (js ''https://b.test/doc.pdf'') w0 =
     (Inr (Some \<lparr>p_url = js ''https://b.test/doc.pdf'', p_content = js ''Document text''\<rparr>),
      \<lparr>tick = 3, files = {},
       trace = [WriteFile (js ''/tmp/temp_1700000000000.pdf''),
                Exec (js ''pdf2txt.py '' @ [34] @ js ''/tmp/temp_1700000000000.pdf'' @ [34]),
                Unlink (js ''/tmp/temp_1700000000000.pdf'')]\<rparr>)"
    by (simp add: eval_defs)
  have b: "data \<lparr>status = 200, content_type = Some (js ''text/html; x=application/pdf''),
       data = Some (js ''%PDF-1.4'')\<rparr> = Some (js ''%PDF-1.4'')"
    by simp
  from dispatch_on_exact_substring [OF a b] a b show ?thesis
    by (elim conjE) (intro conjI, assumption+)
qed

subsection \<open>What the entry points do on bad input\<close>

lemma fetch_and_parse_results_not_array:
  "\<not> is_array results \<Longrightarrow> fetch_and_parse_results c env results w = (Inr [], w)"
  by (simp add: fetch_and_parse_results_def)

lemma fetch_and_parse_results_returns:
  "\<forall>result\<in>set (elements results). to_string_error (get_member result (js ''url'')) = None \<Longrightarrow>
     \<exists>out w'. fetch_and_parse_results c env results w = (Inr out, w')"
  using for_of_returns [of "elements results" c env "[]" w]
  by (simp add: fetch_and_parse_results_def)

lemma search_and_parse_never_throws:
  "\<exists>out w'. search_and_parse c env query language w = (Inr out, w')"
  by (auto simp: search_and_parse_def Let_def split: prod.splits sum.splits)

lemma search_and_parse_bad_shape:
  assumes "search env query language w = (searchResults, w1)"
    and "js_typeof searchResults \<noteq> TObject \<or> \<not> js_truthy searchResults
         \<or> \<not> is_array (get_member searchResults (js ''results''))"
  shows "search_and_parse c env query language w = (Inr [], w1)"
  using assms by (auto simp: search_and_parse_def Let_def)

lemma search_and_parse_catches:
  assumes "search env query language w = (searchResults, w1)"
    and "fetch_and_parse_results c env (get_member searchResults (js ''results'')) w1
           = (Inl e, w2)"
  shows "fst (search_and_parse c env query language w) = Inr []"
  using assms by (auto simp: search_and_parse_def Let_def)

text \<open>
  Claim C6. \<open>fetch_and_parse_results\<close> does throw: on the array
  \<open>[{"url": {"toString": 1}}]\<close> the warning for the invalid URL interpolates the
  object, ToString throws a TypeError, and nothing in \<open>fetch_and_parse_results\<close>
  catches it. (The rest of the claim holds: a value that is no array gives the empty
  list at once, and \<open>search_and_parse\<close> never throws.)
\<close>

theorem fetch_and_parse_results_throws:
  "fetch_and_parse_results SearXNGClient scenario_env (JArr [unprintable_item]) w0 =
     (Inl (TypeError (js ''Cannot convert object to primitive value'')), w0)"
  by (simp add: eval_defs)

theorem fetch_and_parse_results_throws_witness:
  "fst (fetch_and_parse_results SearXNGClient scenario_env (JArr [unprintable_item]) w0) =
     Inl (TypeError (js ''Cannot convert object to primitive value''))
   \<and> trace (snd (fetch_and_parse_results SearXNGClient scenario_env
        (JArr [unprintable_item]) w0)) = []"
  using fetch_and_parse_results_throws by (simp add: w0_def)

text \<open>
  Claim C7. \<open>_fetch_url_content\<close> makes one GET, and returns the reply when its
  status is 2xx and \<open>null\<close> in every other case: another status, a network error or
  timeout, any other failure. Its result has no exceptional case.
\<close>

theorem fetch_url_content_single_attempt:
  "trace (snd (fetch_url_content env url w)) = trace w @ [HttpGet url]
   \<and> fst (fetch_url_content env url w) =
       (case http_get env (tick w) url of
          Reply response \<Rightarrow>
            if 200 \<le> status response \<and> status response < 300 then Some response else None
        | NetworkError m \<Rightarrow> None
        | OtherFailure m \<Rightarrow> None)"
  by (simp add: fetch_url_content_def axios_get_def emit_def Let_def
      split: http_outcome.splits)

theorem fetch_url_content_single_attempt_witness:
  "trace (snd (fetch_url_content scenario_env (js ''https://d.test'') w0))
     = [HttpGet (js ''https://d.test'')]
   \<and> fst (fetch_url_content scenario_env (js ''https://d.test'') w0) = None
   \<and> trace (snd (fetch_url_content scenario_env (js ''https://nowhere.test'') w0))
     = [HttpGet (js ''https://nowhere.test'')]
   \<and> fst (fetch_url_content scenario_env (js ''https://nowhere.test'') w0) = None"
  using fetch_url_content_single_attempt [of scenario_env "js ''https://d.test''" w0]
    fetch_url_content_single_attempt [of scenario_env "js ''https://nowhere.test''" w0]
  by (simp add: scenario_defs js_def)

text \<open>
  Claim C8. One item can stop the batch: with \<open>{"url": {"toString": 1}}\<close> before it,
  the item of scenario 1 is never fetched, and the call ends in the TypeError with the
  world untouched; alone, the same item is fetched, parsed and returned.
\<close>

theorem unprintable_url_aborts_batch:
  "fetch_and_parse_results SearXNGClient scenario_env (JArr [unprintable_item, item_a]) w0 =
     (Inl (TypeError (js ''Cannot convert object to primitive value'')), w0)
   \<and> fetch_and_parse_results SearXNGClient scenario_env (JArr [item_a]) w0 =
     (Inr [JObj [(js ''url'', JStr (js ''https://a.test'')), (js ''title'', JStr (js ''A'')),
                 (js ''parsed_content'', JStr (js ''Hello world''))]],
      \<lparr>tick = 2, files = {},
       trace = [HttpGet (js ''https://a.test''), ReadabilityParse (js ''https://a.test'')]\<rparr>)"
  by (simp add: eval_defs)

theorem unprintable_url_aborts_batch_witness:
  "trace (snd (fetch_and_parse_results SearXNGClient scenario_env
        (JArr [unprintable_item, item_a]) w0)) = []
   \<and> trace (snd (fetch_and_parse_results SearXNGClient scenario_env (JArr [item_a]) w0)) =
       [HttpGet (js ''https://a.test''), ReadabilityParse (js ''https://a.test'')]"
  using unprintable_url_aborts_batch by (simp add: w0_def)

text \<open>
  Claim C9, as stated, fails on an item that has a \<open>parsed_content\<close> already: the
  output item does not hold that field with its original value, and it has no field
  more than the input item.
\<close>

theorem stale_parsed_content_not_kept:
  "fetch_and_parse_results SearXNGClient scenario_env (JArr [stale_item]) w0 =
     (Inr [JObj [(js ''parsed_content'', JStr (js ''Hello world'')),
                 (js ''url'', JStr (js ''https://a.test''))]],
      \<lparr>tick = 2, files = {},
       trace = [HttpGet (js ''https://a.test''), ReadabilityParse (js ''https://a.test'')]\<rparr>)
   \<and> get_member stale_item (js ''parsed_content'') = JStr (js ''old'')
   \<and> get_member (JObj [(js ''parsed_content'', JStr (js ''Hello world'')),
                 (js ''url'', JStr (js ''https://a.test''))]) (js ''parsed_content'')
       \<noteq> JStr (js ''old'')
   \<and> length (own_enumerable (JObj [(js ''parsed_content'', JStr (js ''Hello world'')),
                 (js ''url'', JStr (js ''https://a.test''))]))
       = length (own_enumerable stale_item)"
  by (simp add: eval_defs)

text \<open>
  Claim C9, amended. The call is run over a store that holds every object of the
  input array. No object that existed before the call is changed, so every input item
  reads after the call as it did before. Every element of the output is a reference to
  an object created during the call, made from one input object \<open>result\<close>: each
  field other than \<open>parsed_content\<close> has the value it has in \<open>result\<close>, and
  \<open>parsed_content\<close> is the content that \<open>_parse_content\<close> returned for
  \<open>result\<close> in this run, fetched in the world \<open>ws\<close> that the loop reached after
  the items before it. When \<open>result\<close> has no \<open>parsed_content\<close> the new object is
  the fields of \<open>result\<close>, in order, followed by that one field; otherwise it has the
  same field names in the same order. (\<open>map_of ps k\<close> is the own field \<open>k\<close> of the
  object with properties \<open>ps\<close>.)
\<close>

theorem enrichment_frame:
  assumes "elements_ok h items"
    and "fetch_and_parse_results_ref c env items h w = (Inr out, h', w')"
  shows "take (length h) h' = h
    \<and> map (deref h') items = map (deref h) items
    \<and> (\<forall>x\<in>set out. \<exists>a pre result post acc hs ws ps response w1 pc w2.
          x = Ref a \<and> length h \<le> a \<and> a < length h' \<and>
          items = pre @ result # post \<and>
          for_of_ref c env pre [] h w = (Inr acc, hs, ws) \<and>
          deref h result = JObj ps \<and>
          fetch_url_content env (str_of (get_member (JObj ps) (js ''url''))) ws
            = (Some response, w1) \<and>
          parse_content c env response (str_of (get_member (JObj ps) (js ''url''))) w1
            = (Inr (Some pc), w2) \<and>
          h' ! a = JObj (set_prop ps (js ''parsed_content'') (JStr (p_content pc))) \<and>
          (\<forall>k. k \<noteq> js ''parsed_content'' \<longrightarrow> map_of (own_enumerable (h' ! a)) k = map_of ps k) \<and>
          map_of (own_enumerable (h' ! a)) (js ''parsed_content'') = Some (JStr (p_content pc)) \<and>
          (js ''parsed_content'' \<notin> set (map fst ps)
             \<longrightarrow> own_enumerable (h' ! a) = ps @ [(js ''parsed_content'', JStr (p_content pc))]) \<and>
          (js ''parsed_content'' \<in> set (map fst ps)
             \<longrightarrow> map fst (own_enumerable (h' ! a)) = map fst ps))"
proof -
  from assms(2) have run: "for_of_ref c env items [] h w = (Inr out, h', w')"
    by (simp add: fetch_and_parse_results_ref_def)
  from for_of_ref_grows [OF run] obtain ext where h': "h' = h @ ext" by blast
  have kept: "take (length h) h' = h" using h' by simp
  have reads: "map (deref h') items = map (deref h) items"
    unfolding h' by (rule map_deref_append [OF assms(1)])
  have each: "\<exists>a pre result post acc hs ws ps response w1 pc w2.
          x = Ref a \<and> length h \<le> a \<and> a < length h' \<and>
          items = pre @ result # post \<and>
          for_of_ref c env pre [] h w = (Inr acc, hs, ws) \<and>
          deref h result = JObj ps \<and>
          fetch_url_content env (str_of (get_member (JObj ps) (js ''url''))) ws
            = (Some response, w1) \<and>
          parse_content c env response (str_of (get_member (JObj ps) (js ''url''))) w1
            = (Inr (Some pc), w2) \<and>
          h' ! a = JObj (set_prop ps (js ''parsed_content'') (JStr (p_content pc))) \<and>
          (\<forall>k. k \<noteq> js ''parsed_content'' \<longrightarrow> map_of (own_enumerable (h' ! a)) k = map_of ps k) \<and>
          map_of (own_enumerable (h' ! a)) (js ''parsed_content'') = Some (JStr (p_content pc)) \<and>
          (js ''parsed_content'' \<notin> set (map fst ps)
             \<longrightarrow> own_enumerable (h' ! a) = ps @ [(js ''parsed_content'', JStr (p_content pc))]) \<and>
          (js ''parsed_content'' \<in> set (map fst ps)
             \<longrightarrow> map fst (own_enumerable (h' ! a)) = map fst ps)"
    if "x \<in> set out" for x
  proof -
    from for_of_ref_origin [OF run] that obtain pre result post acc hs ws ws' where
      split: "items = pre @ result # post" and
      before: "for_of_ref c env pre [] h w = (Inr acc, hs, ws)" and
      step: "process_result_ref c env result acc hs ws
               = (Inr (acc @ [x]), hs @ [h' ! length hs], ws')" and
      x: "x = Ref (length hs)" and inside: "length hs < length h'"
      by auto
    from process_result_ref_cases [OF step] obtain ps response w1 and pc :: parsed where
      read: "deref hs result = JObj ps" and
      fetched: "fetch_url_content env (str_of (get_member (JObj ps) (js ''url''))) ws
                  = (Some response, w1)" and
      parsed: "parse_content c env response (str_of (get_member (JObj ps) (js ''url''))) w1
                  = (Inr (Some pc), ws')" and
      cell: "hs @ [h' ! length hs]
               = hs @ [JObj (set_prop ps (js ''parsed_content'') (JStr (p_content pc)))]"
      by auto
    let ?v = "JStr (p_content pc)"
    from cell have obj: "h' ! length hs = JObj (set_prop ps (js ''parsed_content'') ?v)"
      by simp
    from for_of_ref_grows [OF before] obtain e where hs: "hs = h @ e" by blast
    from assms(1) split have "element_ok h result"
      by (simp add: elements_ok_def)
    with read hs have read0: "deref h result = JObj ps"
      by (simp add: deref_append)
    have low: "length h \<le> length hs" using hs by simp
    have f1: "\<forall>k. k \<noteq> js ''parsed_content''
        \<longrightarrow> map_of (own_enumerable (h' ! length hs)) k = map_of ps k"
      unfolding obj by (simp add: map_of_set_prop)
    have f2: "map_of (own_enumerable (h' ! length hs)) (js ''parsed_content'') = Some ?v"
      unfolding obj by (simp add: map_of_set_prop)
    have f3: "js ''parsed_content'' \<notin> set (map fst ps)
        \<longrightarrow> own_enumerable (h' ! length hs) = ps @ [(js ''parsed_content'', ?v)]"
      unfolding obj using set_prop_new [of "js ''parsed_content''" ps ?v] by simp
    have f4: "js ''parsed_content'' \<in> set (map fst ps)
        \<longrightarrow> map fst (own_enumerable (h' ! length hs)) = map fst ps"
      unfolding obj using set_prop_old [of "js ''parsed_content''" ps ?v] by simp
    from x low inside split before read0 fetched parsed obj f1 f2 f3 f4
    show ?thesis by blast
  qed
  from kept reads each show ?thesis by blast
qed


lemma run_items0:
  "fetch_and_parse_results_ref SearXNGClient scenario_env items0 h0 w0 =
     (Inr [Ref 2, Ref 3],
      [item_a, stale_item,
       JObj [(js ''url'', JStr (js ''https://a.test'')), (js ''title'', JStr (js ''A'')),
             (js ''parsed_content'', JStr (js ''Hello world''))],
       JObj [(js ''parsed_content'', JStr (js ''Hello world'')),
             (js ''url'', JStr (js ''https://a.test''))]],
      \<lparr>tick = 4, files = {},
       trace = [HttpGet (js ''https://a.test''), ReadabilityParse (js ''https://a.test''),
                HttpGet (js ''https://a.test''), ReadabilityParse (js ''https://a.test'')]\<rparr>)"
  by (simp add: eval_defs fetch_and_parse_results_ref_def process_result_ref_def alloc_def
      h0_def items0_def)

theorem enrichment_frame_witness:
  "elements_ok h0 items0
   \<and> fetch_and_parse_results_ref SearXNGClient scenario_env items0 h0 w0 =
     (Inr [Ref 2, Ref 3],
      [item_a, stale_item,
       JObj [(js ''url'', JStr (js ''https://a.test'')), (js ''title'', JStr (js ''A'')),
             (js ''parsed_content'', JStr (js ''Hello world''))],
       JObj [(js ''parsed_content'', JStr (js ''Hello world'')),
             (js ''url'', JStr (js ''https://a.test''))]],
      \<lparr>tick = 4, files = {},
       trace = [HttpGet (js ''https://a.test''), ReadabilityParse (js ''https://a.test''),
                HttpGet (js ''https://a.test''), ReadabilityParse (js ''https://a.test'')]\<rparr>)
   \<and> take (length h0)
        [item_a, stale_item,
         JObj [(js ''url'', JStr (js ''https://a.test'')), (js ''title'', JStr (js ''A'')),
               (js ''parsed_content'', JStr (js ''Hello world''))],
         JObj [(js ''parsed_content'', JStr (js ''Hello world'')),
               (js ''url'', JStr (js ''https://a.test''))]] = h0
   \<and> map (deref
        [item_a, stale_item,
         JObj [(js ''url'', JStr (js ''https://a.test'')), (js ''title'', JStr (js ''A'')),
               (js ''parsed_content'', JStr (js ''Hello world''))],
         JObj [(js ''parsed_content'', JStr (js ''Hello world'')),
               (js ''url'', JStr (js ''https://a.test''))]]) items0 = map (deref h0) items0"
proof -
  have ok: "elements_ok h0 items0"
    by (simp add: elements_ok_def h0_def items0_def)
  from enrichment_frame [OF ok run_items0] ok run_items0 show ?thesis
    by (elim conjE) (intro conjI, assumption+)
qed

text \<open>
  Claim C10. An output item's \<open>parsed_content\<close> is the content that
  \<open>_parse_content\<close> returned for its input item in this run, whatever
  \<open>parsed_content\<close> the input item carried: the item is some \<open>result\<close> of the
  input, fetched in the world \<open>ws\<close> that the loop reached after the items before
  it, and the spread sets the field to the extracted content.
\<close>

theorem existing_parsed_content_overwritten:
  assumes "fetch_and_parse_results c env results w = (Inr out, w')" and "item \<in> set out"
  shows "\<exists>pre result post acc ws response w1 pc w2.
      elements results = pre @ result # post \<and>
      for_of c env pre [] w = (Inr acc, ws) \<and>
      fetch_url_content env (str_of (get_member result (js ''url''))) ws = (Some response, w1) \<and>
      parse_content c env response (str_of (get_member result (js ''url''))) w1
        = (Inr (Some pc), w2) \<and>
      item = spread_with result (js ''parsed_content'') (JStr (p_content pc)) \<and>
      get_member item (js ''parsed_content'') = JStr (p_content pc)"
proof -
  from assms have run: "for_of c env (elements results) [] w = (Inr out, w')"
    by (auto simp: fetch_and_parse_results_def split: if_splits)
  from for_of_origin [OF run] assms(2) obtain pre result post acc ws ws' where
    split: "elements results = pre @ result # post" and
    before: "for_of c env pre [] w = (Inr acc, ws)" and
    step: "process_result c env result acc ws = (Inr (acc @ [item]), ws')"
    by auto
  from process_result_cases [OF step] obtain response w1 pc where
    "fetch_url_content env (str_of (get_member result (js ''url''))) ws = (Some response, w1)"
    "parse_content c env response (str_of (get_member result (js ''url''))) w1
       = (Inr (Some pc), ws')"
    "item = spread_with result (js ''parsed_content'') (JStr (p_content pc))"
    by auto
  moreover from this have "get_member item (js ''parsed_content'') = JStr (p_content pc)"
    by (simp add: get_member_spread_same)
  ultimately show ?thesis using split before by blast
qed

theorem existing_parsed_content_overwritten_witness:
  "fetch_and_parse_results SearXNGClient scenario_env (JArr [stale_item]) w0 =
     (Inr [JObj [(js ''parsed_content'', JStr (js ''Hello world'')),
                 (js ''url'', JStr (js ''https://a.test''))]],
      \<lparr>tick = 2, files = {},
       trace = [HttpGet (js ''https://a.test''), ReadabilityParse (js ''https://a.test'')]\<rparr>)
   \<and> get_member stale_item (js ''parsed_content'') = JStr (js ''old'')
   \<and> (\<exists>pre result post acc ws response w1 pc w2.
      elements (JArr [stale_item]) = pre @ result # post \<and>
      for_of SearXNGClient scenario_env pre [] w0 = (Inr acc, ws) \<and>
      fetch_url_content scenario_env (str_of (get_member result (js ''url''))) ws
        = (Some response, w1) \<and>
      parse_content SearXNGClient scenario_env response (str_of (get_member result (js ''url''))) w1
        = (Inr (Some pc), w2) \<and>
      JObj [(js ''parsed_content'', JStr (js ''Hello world'')),
            (js ''url'', JStr (js ''https://a.test''))]
        = spread_with result (js ''parsed_content'') (JStr (p_content pc)) \<and>
      get_member (JObj [(js ''parsed_content'', JStr (js ''Hello world'')),
            (js ''url'', JStr (js ''https://a.test''))]) (js ''parsed_content'')
        = JStr (p_content pc))"
proof -
  have m: "JObj [(js ''parsed_content'', JStr (js ''Hello world'')),
                 (js ''url'', JStr (js ''https://a.test''))]
      \<in> set [JObj [(js ''parsed_content'', JStr (js ''Hello world'')),
                 (js ''url'', JStr (js ''https://a.test''))]]"
    by simp
  have old: "get_member stale_item (js ''parsed_content'') = JStr (js ''old'')"
    by (simp add: stale_item_def)
  from run_stale_item old existing_parsed_content_overwritten [OF run_stale_item m]
  show ?thesis by (intro conjI)
qed

end
